theory Spec2Isabelle
  imports Main "HOL-Library.Word" "HOL-Library.Monad_Syntax"
begin

unbundle bit_operations_syntax

section \<open>Machine types and buffers\<close>

text \<open>
  The firmware targets the ESP32 (Arduino core): \<open>uint8_t\<close>, \<open>uint16_t\<close> and
  \<open>unsigned long\<close> are 8, 16 and 32 bits wide and \<open>size_t\<close> is a 32-bit unsigned integer.
  A C array reached through a pointer is a list of bytes: the list is the storage that may
  be touched, and a read or write at an index outside of it is undefined behaviour in C++,
  which the model reports as \<open>None\<close>. Lengths and indices of type \<open>size_t\<close> are natural
  numbers below \<open>2 ^ 32\<close>; a subtraction between them is \<open>size_t_sub\<close>, which writes the
  wrap-around out, and \<open>int_of_size_t\<close> is the conversion \<open>(int)i\<close>.
\<close>

type_synonym u8 = "8 word"
type_synonym u16 = "16 word"
type_synonym u32 = "32 word"

definition rd :: "u8 list \<Rightarrow> nat \<Rightarrow> u8 option" where
  "rd buffer i = (if i < length buffer then Some (buffer ! i) else None)"

definition wr :: "u8 list \<Rightarrow> nat \<Rightarrow> u8 \<Rightarrow> u8 list option" where
  "wr buffer i v = (if i < length buffer then Some (buffer[i := v]) else None)"

definition size_t_sub :: "nat \<Rightarrow> nat \<Rightarrow> nat" where
  "size_t_sub a b = (if b \<le> a then a - b else a + 2 ^ 32 - b)"

definition int_of_size_t :: "nat \<Rightarrow> int" where
  "int_of_size_t i = sint (word_of_nat i :: 32 word)"

section \<open>PentairProtocol.h: constants\<close>

definition PENTAIR_PREAMBLE_LEN :: nat where "PENTAIR_PREAMBLE_LEN = 4"
definition PENTAIR_PREAMBLE :: "u8 list" where "PENTAIR_PREAMBLE = [0xFF, 0x00, 0xFF, 0xA5]"

definition PKT_IDX_LEAD :: nat where "PKT_IDX_LEAD = 3"
definition PKT_IDX_VER :: nat where "PKT_IDX_VER = 4"
definition PKT_IDX_DST :: nat where "PKT_IDX_DST = 5"
definition PKT_IDX_SRC :: nat where "PKT_IDX_SRC = 6"
definition PKT_IDX_CMD :: nat where "PKT_IDX_CMD = 7"
definition PKT_IDX_LEN :: nat where "PKT_IDX_LEN = 8"
definition PKT_IDX_DATA :: nat where "PKT_IDX_DATA = 9"

definition PENTAIR_MIN_PKT_LEN :: nat where "PENTAIR_MIN_PKT_LEN = 11"
definition PENTAIR_VERSION :: u8 where "PENTAIR_VERSION = 0x00"

definition ADDR_BROADCAST :: u8 where "ADDR_BROADCAST = 0x0F"
definition ADDR_REMOTE_CONTROLLER :: u8 where "ADDR_REMOTE_CONTROLLER = 0x20"
definition ADDR_PUMP_1 :: u8 where "ADDR_PUMP_1 = 0x60"

definition CMD_MODE :: u8 where "CMD_MODE = 0x05"
definition CMD_STATUS :: u8 where "CMD_STATUS = 0x07"
definition MODE_EXT_PROG_1 :: u8 where "MODE_EXT_PROG_1 = 0x09"
definition MODE_EXT_PROG_4 :: u8 where "MODE_EXT_PROG_4 = 0x0C"
definition STAT_DATA_LEN :: nat where "STAT_DATA_LEN = 15"

definition EXT_PROG_REPEAT_INTERVAL :: nat where "EXT_PROG_REPEAT_INTERVAL = 30000"
definition CMD_RESPONSE_TIMEOUT :: nat where "CMD_RESPONSE_TIMEOUT = 2000"
definition STATUS_QUERY_INTERVAL :: nat where "STATUS_QUERY_INTERVAL = 15000"

section \<open>PentairProtocol.h: the codec\<close>

text \<open>
  The summing loop \<open>for (size_t i = from; i < bound; i++) sum += packet[i];\<close> with a
  16-bit accumulator. \<open>pentairChecksum\<close> runs it from \<open>PKT_IDX_LEAD\<close> to \<open>length - 2\<close>,
  \<open>pentairBuildPacket\<close> from \<open>PKT_IDX_LEAD\<close> to \<open>idx\<close>.
\<close>

function sum_loop :: "u8 list \<Rightarrow> nat \<Rightarrow> nat \<Rightarrow> u16 \<Rightarrow> u16 option" where
  "sum_loop packet i bound acc =
     (if i < bound then
        (case rd packet i of
           None \<Rightarrow> None
         | Some b \<Rightarrow> sum_loop packet (i + 1) bound (acc + ucast b))
      else Some acc)"
  by pat_completeness auto
termination
  by (relation "measure (\<lambda>(packet, i, bound, acc). bound - i)") auto

declare sum_loop.simps [simp del]

definition pentairChecksum :: "u8 list \<Rightarrow> nat \<Rightarrow> u16 option" where
  "pentairChecksum packet len = sum_loop packet PKT_IDX_LEAD (size_t_sub len 2) 0"

definition pentairVerifyChecksum :: "u8 list \<Rightarrow> nat \<Rightarrow> bool option" where
  "pentairVerifyChecksum packet len =
     (if len < PENTAIR_MIN_PKT_LEN then Some False
      else do {
        calculated \<leftarrow> pentairChecksum packet len;
        hi \<leftarrow> rd packet (len - 2);
        lo \<leftarrow> rd packet (len - 1);
        let received = (push_bit 8 (ucast hi :: u16)) OR ucast lo;
        Some (calculated = received)
      })"

text \<open>
  The four comparisons of the marker test are joined by \<open>&&\<close>: a byte is read only when
  all the bytes before it matched.
\<close>

definition marker_at :: "u8 list \<Rightarrow> nat \<Rightarrow> bool option" where
  "marker_at buffer i = do {
     b0 \<leftarrow> rd buffer i;
     if b0 \<noteq> 0xFF then Some False else do {
       b1 \<leftarrow> rd buffer (i + 1);
       if b1 \<noteq> 0x00 then Some False else do {
         b2 \<leftarrow> rd buffer (i + 2);
         if b2 \<noteq> 0xFF then Some False else do {
           b3 \<leftarrow> rd buffer (i + 3);
           Some (b3 = 0xA5)
         }
       }
     }
   }"

function find_loop :: "u8 list \<Rightarrow> nat \<Rightarrow> nat \<Rightarrow> int option" where
  "find_loop buffer i len =
     (if i \<le> size_t_sub len 4 then
        (case marker_at buffer i of
           None \<Rightarrow> None
         | Some True \<Rightarrow> Some (int_of_size_t i)
         | Some False \<Rightarrow> find_loop buffer (i + 1) len)
      else Some (- 1))"
  by pat_completeness auto
termination
  by (relation "measure (\<lambda>(buffer, i, len). size_t_sub len 4 + 1 - i)") auto

declare find_loop.simps [simp del]

definition pentairFindMessage :: "u8 list \<Rightarrow> nat \<Rightarrow> int option" where
  "pentairFindMessage buffer len =
     (if len < PENTAIR_MIN_PKT_LEN then Some (- 1) else find_loop buffer 0 len)"

definition pentairPacketLength :: "u8 list \<Rightarrow> nat option" where
  "pentairPacketLength packetStart = do {
     n \<leftarrow> rd packetStart PKT_IDX_LEN;
     Some (4 + 1 + 1 + 1 + 1 + 1 + unat n + 2)
   }"

text \<open>
  The copy loop \<open>for (uint8_t i = 0; i < dataLen; i++) buffer[idx++] = data[i];\<close>.
  The counter is 8 bits wide, as in the source; it returns the buffer and \<open>idx\<close>.
\<close>

function copy_loop :: "u8 list \<Rightarrow> nat \<Rightarrow> u8 list \<Rightarrow> u8 \<Rightarrow> u8 \<Rightarrow> (u8 list \<times> nat) option" where
  "copy_loop buffer idx data i dataLen =
     (if i < dataLen then
        (case rd data (unat i) of
           None \<Rightarrow> None
         | Some d \<Rightarrow>
            (case wr buffer idx d of
               None \<Rightarrow> None
             | Some buffer' \<Rightarrow> copy_loop buffer' (idx + 1) data (i + 1) dataLen))
      else Some (buffer, idx))"
  by pat_completeness auto
termination
proof (relation "measure (\<lambda>(buffer, idx, data, i, dataLen). unat dataLen - unat i)")
  show "wf (measure (\<lambda>(buffer, idx, data, i, dataLen). unat dataLen - unat i))"
    by simp
next
  fix buffer :: "u8 list" and idx :: nat and data :: "u8 list" and i dataLen :: u8
    and d :: u8 and buffer' :: "u8 list"
  assume "i < dataLen"
  then have lt: "unat i < unat dataLen"
    by (simp add: word_less_nat_alt)
  have "unat dataLen < 256"
    using unsigned_less [of dataLen, where ?'a = nat] by simp
  with lt have "unat (i + 1) = Suc (unat i)"
    by (simp add: unat_word_ariths)
  with lt show "((buffer', idx + 1, data, i + 1, dataLen), (buffer, idx, data, i, dataLen))
      \<in> measure (\<lambda>(buffer, idx, data, i, dataLen). unat dataLen - unat i)"
    by simp
qed

declare copy_loop.simps [simp del]

definition pentairBuildPacket ::
  "u8 list \<Rightarrow> u8 \<Rightarrow> u8 \<Rightarrow> u8 \<Rightarrow> u8 list \<Rightarrow> u8 \<Rightarrow> (u8 list \<times> nat) option" where
  "pentairBuildPacket buffer dst src cmd data dataLen = do {
     b \<leftarrow> wr buffer 0 0xFF;
     b \<leftarrow> wr b 1 0x00;
     b \<leftarrow> wr b 2 0xFF;
     b \<leftarrow> wr b 3 0xA5;
     b \<leftarrow> wr b 4 PENTAIR_VERSION;
     b \<leftarrow> wr b 5 dst;
     b \<leftarrow> wr b 6 src;
     b \<leftarrow> wr b 7 cmd;
     b \<leftarrow> wr b 8 dataLen;
     (b, idx) \<leftarrow> copy_loop b 9 data 0 dataLen;
     checksum \<leftarrow> sum_loop b PKT_IDX_LEAD idx 0;
     b \<leftarrow> wr b idx (ucast ((drop_bit 8 checksum) AND 0xFF));
     b \<leftarrow> wr b (idx + 1) (ucast (checksum AND 0xFF));
     Some (b, idx + 2)
   }"

section \<open>Observations on frames\<close>

text \<open>
  The functions of this section are not part of the firmware. They describe a frame in the
  terms the properties below are stated in: \<open>wsum\<close> is the 16-bit sum of a byte sequence,
  \<open>byte_sum\<close> the sum, as a natural number without wrap-around, of the bytes at the indices
  \<open>lo\<close> up to but excluding \<open>hi\<close>, \<open>checksum_field\<close> the value of the two trailing bytes
  of a packet of \<open>len\<close> bytes read big-endian, and \<open>frame_bytes\<close> the wire layout
  \<open>FF 00 FF A5 VER DST SRC CMD LEN DATA CHK_HI CHK_LO\<close> written as a list.
\<close>

definition wsum :: "u8 list \<Rightarrow> u16" where
  "wsum xs = sum_list (map ucast xs)"

definition frame_body :: "u8 \<Rightarrow> u8 \<Rightarrow> u8 \<Rightarrow> u8 list \<Rightarrow> u8 \<Rightarrow> u8 list" where
  "frame_body dst src cmd payload dataLen =
     [0xFF, 0x00, 0xFF, 0xA5, 0x00, dst, src, cmd, dataLen] @ payload"

definition frame_bytes :: "u8 \<Rightarrow> u8 \<Rightarrow> u8 \<Rightarrow> u8 list \<Rightarrow> u8 \<Rightarrow> u8 list" where
  "frame_bytes dst src cmd payload dataLen =
     (let body = frame_body dst src cmd payload dataLen;
          checksum = wsum (drop 3 body)
      in body @ [ucast ((drop_bit 8 checksum) AND 0xFF), ucast (checksum AND 0xFF)])"

definition checksum_field :: "u8 list \<Rightarrow> nat \<Rightarrow> nat" where
  "checksum_field packet len = 256 * unat (packet ! (len - 2)) + unat (packet ! (len - 1))"

definition byte_sum :: "u8 list \<Rightarrow> nat \<Rightarrow> nat \<Rightarrow> nat" where
  "byte_sum packet lo hi = sum_list (map unat (take (hi - lo) (drop lo packet)))"

section \<open>config.h\<close>

text \<open>
  The feature flags \<open>DEBUG_MODE\<close>, \<open>ECHO_MODE\<close> and \<open>ENABLE_WIFI\<close> are defined by
  \<open>config.h\<close> (as 1, 0 and 0), and the code tests them with \<open>#ifdef\<close>, which asks whether a
  macro is defined and not what its value is. All three guarded regions are therefore
  compiled in; \<open>DEBUG_MODE_defined\<close>, \<open>ECHO_MODE_defined\<close> and \<open>ENABLE_WIFI_defined\<close> record
  this.
\<close>

definition DEBUG_MODE_defined :: bool where "DEBUG_MODE_defined = True"
definition ECHO_MODE_defined :: bool where "ECHO_MODE_defined = True"
definition ENABLE_WIFI_defined :: bool where "ENABLE_WIFI_defined = True"

definition RS485_DE_RE_PIN :: int where "RS485_DE_RE_PIN = 4"
definition RS485_TX_PIN :: int where "RS485_TX_PIN = 17"
definition RS485_RX_PIN :: int where "RS485_RX_PIN = 16"
definition RS485_BAUD_RATE :: nat where "RS485_BAUD_RATE = 9600"
definition RS485_BUFFER_SIZE :: nat where "RS485_BUFFER_SIZE = 256"
definition RS485_TIMEOUT_MS :: nat where "RS485_TIMEOUT_MS = 30000"
definition RS485_PRE_TX_DELAY_US :: nat where "RS485_PRE_TX_DELAY_US = 10"
definition RS485_POST_TX_DELAY_US :: nat where "RS485_POST_TX_DELAY_US = 10"
definition RS485_RX_TIMEOUT_MS :: u32 where "RS485_RX_TIMEOUT_MS = 100"

section \<open>The Arduino core\<close>

text \<open>
  The platform library (\<open>pinMode\<close>, \<open>digitalWrite\<close>, \<open>delay\<close>, \<open>millis\<close>, \<open>HardwareSerial\<close>)
  is not part of the repository. It is modelled by a state that holds the bytes waiting in
  the UART's receive queue, a clock in microseconds and the list of all calls made to the
  pins, to the RS-485 UART and to the console so far: a function that returns the hardware
  state it was given has made none. A delay advances the clock, \<open>millis\<close> is the clock in
  milliseconds as an \<open>unsigned long\<close>, the UART accepts every byte written to it, and no
  byte arrives while a function runs. Console output is recorded as the text or the bytes
  printed, not formatted.
\<close>

datatype hw_call =
    PinMode int
  | DigitalWrite int bool
  | SerialBegin nat int int
  | SerialAvailable
  | SerialRead
  | SerialPeek
  | SerialWrite "u8 list"
  | SerialFlush
  | ConsolePrint string
  | ConsoleHex string "u8 list"

record hardware =
  rx_fifo :: "u8 list"
  clock_us :: nat
  calls :: "hw_call list"

definition call :: "hw_call \<Rightarrow> hardware \<Rightarrow> hardware" where
  "call c hw = hw\<lparr>calls := calls hw @ [c]\<rparr>"

definition pinMode :: "int \<Rightarrow> hardware \<Rightarrow> hardware" where
  "pinMode pin hw = call (PinMode pin) hw"

definition digitalWrite :: "int \<Rightarrow> bool \<Rightarrow> hardware \<Rightarrow> hardware" where
  "digitalWrite pin level hw = call (DigitalWrite pin level) hw"

definition delayMicroseconds :: "nat \<Rightarrow> hardware \<Rightarrow> hardware" where
  "delayMicroseconds us hw = hw\<lparr>clock_us := clock_us hw + us\<rparr>"

definition delay :: "nat \<Rightarrow> hardware \<Rightarrow> hardware" where
  "delay ms hw = hw\<lparr>clock_us := clock_us hw + 1000 * ms\<rparr>"

definition millis :: "hardware \<Rightarrow> u32" where
  "millis hw = word_of_nat (clock_us hw div 1000)"

definition serial_begin :: "nat \<Rightarrow> int \<Rightarrow> int \<Rightarrow> hardware \<Rightarrow> hardware" where
  "serial_begin baud rx tx hw = call (SerialBegin baud rx tx) hw"

definition serial_available :: "hardware \<Rightarrow> int \<times> hardware" where
  "serial_available hw = (int (length (rx_fifo hw)), call SerialAvailable hw)"

definition serial_read :: "hardware \<Rightarrow> int \<times> hardware" where
  "serial_read hw =
     (case rx_fifo hw of
        [] \<Rightarrow> (- 1, call SerialRead hw)
      | b # bs \<Rightarrow> (uint b, call SerialRead (hw\<lparr>rx_fifo := bs\<rparr>)))"

definition serial_peek :: "hardware \<Rightarrow> int \<times> hardware" where
  "serial_peek hw =
     (case rx_fifo hw of
        [] \<Rightarrow> (- 1, call SerialPeek hw)
      | b # bs \<Rightarrow> (uint b, call SerialPeek hw))"

definition serial_write :: "u8 list \<Rightarrow> nat \<Rightarrow> hardware \<Rightarrow> (nat \<times> hardware) option" where
  "serial_write data len hw =
     (if len \<le> length data then Some (len, call (SerialWrite (take len data)) hw) else None)"

definition serial_write_byte :: "u8 \<Rightarrow> hardware \<Rightarrow> nat \<times> hardware" where
  "serial_write_byte b hw = (1, call (SerialWrite [b]) hw)"

definition serial_flush :: "hardware \<Rightarrow> hardware" where
  "serial_flush hw = call SerialFlush hw"

section \<open>RS485.cpp\<close>

text \<open>
  The fields of the class, without the trailing underscore of the source's names
  (\<open>initialized_\<close> is \<open>initialized\<close>); \<open>serial_\<close> points to the one UART of the hardware state.
  A pointer argument that may be null is an \<open>option\<close>, and \<open>None\<close> is \<open>nullptr\<close>. A function
  whose result is an \<open>option\<close> returns \<open>None\<close> where the source would read or write outside
  of the array it was given.
\<close>

record RS485 =
  de_re_pin :: int
  tx_pin :: int
  rx_pin :: int
  initialized :: bool

definition RS485_new :: "int \<Rightarrow> int \<Rightarrow> int \<Rightarrow> RS485" where
  "RS485_new de_re tx rx =
     \<lparr>de_re_pin = de_re, tx_pin = tx, rx_pin = rx, initialized = False\<rparr>"

definition setTransmitMode :: "RS485 \<Rightarrow> hardware \<Rightarrow> hardware" where
  "setTransmitMode this hw =
     delayMicroseconds RS485_PRE_TX_DELAY_US (digitalWrite (de_re_pin this) True hw)"

definition setReceiveMode :: "RS485 \<Rightarrow> hardware \<Rightarrow> hardware" where
  "setReceiveMode this hw =
     digitalWrite (de_re_pin this) False (delayMicroseconds RS485_POST_TX_DELAY_US hw)"

definition RS485_begin :: "RS485 \<Rightarrow> nat \<Rightarrow> hardware \<Rightarrow> bool \<times> RS485 \<times> hardware" where
  "RS485_begin this baudRate hw =
     (let hw = pinMode (de_re_pin this) hw;
          hw = setReceiveMode this hw;
          hw = serial_begin baudRate (rx_pin this) (tx_pin this) hw;
          hw = delay 100 hw
      in (True, this\<lparr>initialized := True\<rparr>, hw))"

definition RS485_available :: "RS485 \<Rightarrow> hardware \<Rightarrow> int \<times> hardware" where
  "RS485_available this hw = (if \<not> initialized this then (0, hw) else serial_available hw)"

text \<open>
  The loop of \<open>readBytes\<close>:
  \<open>while (bytesRead < length && (millis() - startTime < RS485_RX_TIMEOUT_MS))\<close>. It ends
  because each round either stores a byte or lets 100 microseconds pass.
\<close>

function readBytes_loop ::
  "u8 list \<Rightarrow> nat \<Rightarrow> nat \<Rightarrow> u32 \<Rightarrow> hardware \<Rightarrow> (nat \<times> u8 list \<times> hardware) option" where
  "readBytes_loop buffer len bytesRead startTime hw =
     (if bytesRead < len \<and> millis hw - startTime < RS485_RX_TIMEOUT_MS then
        (case serial_available hw of
           (n, hw1) \<Rightarrow>
             if n \<noteq> 0 then
               (case serial_read hw1 of
                  (c, hw2) \<Rightarrow>
                    (case wr buffer bytesRead (word_of_int c) of
                       None \<Rightarrow> None
                     | Some buffer' \<Rightarrow>
                         readBytes_loop buffer' len (bytesRead + 1) (millis hw2)
                           (delayMicroseconds 100 hw2)))
             else readBytes_loop buffer len bytesRead startTime (delayMicroseconds 100 hw1))
      else Some (bytesRead, buffer, hw))"
  by pat_completeness auto


lemma u32_succ: "unat (x :: u32) < 100 \<Longrightarrow> unat (x + 1) = Suc (unat x)"
  by (simp add: unat_word_ariths)

lemma mod_step_lt: "(c :: nat) mod 1000 + 100 < 1000 \<Longrightarrow> (c + 100) mod 1000 = c mod 1000 + 100"
proof -
  assume a: "c mod 1000 + 100 < 1000"
  have "(c + 100) mod 1000 = (c mod 1000 + 100) mod 1000"
    by (rule mod_add_left_eq [symmetric])
  with a show ?thesis
    by (simp only: mod_less)
qed

lemma mod_step_ge: "\<not> (c :: nat) mod 1000 + 100 < 1000 \<Longrightarrow> (c + 100) mod 1000 = c mod 1000 + 100 - 1000"
proof -
  assume a: "\<not> c mod 1000 + 100 < 1000"
  have m: "c mod 1000 < 1000"
    by simp
  have "(c + 100) mod 1000 = (c mod 1000 + 100) mod 1000"
    by (rule mod_add_left_eq [symmetric])
  also have "\<dots> = (c mod 1000 + 100 - 1000) mod 1000"
    using a by (simp only: le_mod_geq not_less)
  also have "\<dots> = c mod 1000 + 100 - 1000"
    using m by (intro mod_less) linarith
  finally show ?thesis .
qed

lemma div_step: "(c + 100) div 1000 = (if (c :: nat) mod 1000 + 100 < 1000 then c div 1000 else c div 1000 + 1)"
proof -
  have m: "c mod 1000 < 1000"
    by simp
  have "c + 100 = 1000 * (c div 1000) + (c mod 1000 + 100)"
    by (simp only: add.assoc [symmetric] mult_div_mod_eq)
  then have "(c + 100) div 1000 = c div 1000 + (c mod 1000 + 100) div 1000"
    by (simp only: div_mult_self2 [of 1000 "c mod 1000 + 100" "c div 1000"] add.commute)
  moreover have "(c mod 1000 + 100) div 1000 = (if c mod 1000 + 100 < 1000 then 0 else 1)"
  proof (cases "c mod 1000 + 100 < 1000")
    case True
    then show ?thesis by (simp only: div_less if_True)
  next
    case False
    then have "(c mod 1000 + 100) div 1000 = Suc ((c mod 1000 + 100 - 1000) div 1000)"
      by (intro le_div_geq) simp_all
    moreover have "c mod 1000 + 100 - 1000 < 1000"
      using m by linarith
    ultimately show ?thesis
      using False by (simp only: div_less if_False)
  qed
  ultimately show ?thesis
    by (simp split: if_splits)
qed

lemma millis_after_delay:
  "millis (hw\<lparr>clock_us := clock_us hw + 100\<rparr>) =
     (if clock_us hw mod 1000 + 100 < 1000 then millis hw else millis hw + 1)"
proof -
  let ?c = "clock_us hw"
  have "(?c + 100) div 1000 = (if ?c mod 1000 + 100 < 1000 then ?c div 1000 else ?c div 1000 + 1)"
    by (rule div_step)
  then show ?thesis
    by (simp add: millis_def)
qed

lemma wait_arith_lt:
  fixes e cm :: nat
  assumes "e < 100" and "cm + 100 < 1000"
  shows "(100 - e) * 1000 - (cm + 100) < (100 - e) * 1000 - cm"
proof -
  obtain d where d: "100 - e = Suc d"
    using assms(1) by (cases "100 - e") simp_all
  show ?thesis
    unfolding d using assms(2) by simp
qed

lemma wait_arith_ge:
  fixes e cm :: nat
  assumes "e < 100" and "cm < 1000" and "\<not> cm + 100 < 1000"
  shows "(100 - Suc e) * 1000 - (cm + 100 - 1000) < (100 - e) * 1000 - cm"
proof -
  obtain d where d: "100 - e = Suc d"
    using assms(1) by (cases "100 - e") simp_all
  then have d': "100 - Suc e = d"
    by simp
  show ?thesis
    unfolding d d' using assms(2,3) by simp
qed


lemma wait_step_decreases:
  assumes "millis hw - startTime < RS485_RX_TIMEOUT_MS"
  shows "(unat RS485_RX_TIMEOUT_MS - unat (millis (hw\<lparr>clock_us := clock_us hw + 100\<rparr>) - startTime)) * 1000
            - (clock_us hw + 100) mod 1000
         < (unat RS485_RX_TIMEOUT_MS - unat (millis hw - startTime)) * 1000 - clock_us hw mod 1000"
proof -
  define cm where "cm = clock_us hw mod 1000"
  define e where "e = unat (millis hw - startTime)"
  have t: "unat RS485_RX_TIMEOUT_MS = 100"
    by (simp add: RS485_RX_TIMEOUT_MS_def)
  from assms have e: "e < 100"
    by (simp add: RS485_RX_TIMEOUT_MS_def word_less_nat_alt e_def)
  have m: "cm < 1000"
    by (simp add: cm_def)
  show ?thesis
  proof (cases "cm + 100 < 1000")
    case True
    then have "(clock_us hw + 100) mod 1000 = cm + 100"
      unfolding cm_def by (rule mod_step_lt)
    moreover from True have "millis (hw\<lparr>clock_us := clock_us hw + 100\<rparr>) = millis hw"
      by (simp only: millis_after_delay cm_def if_True)
    moreover note wait_arith_lt [OF e True]
    ultimately show ?thesis
      by (simp only: t e_def cm_def)
  next
    case False
    then have "(clock_us hw + 100) mod 1000 = cm + 100 - 1000"
      unfolding cm_def by (rule mod_step_ge)
    moreover from False have "millis (hw\<lparr>clock_us := clock_us hw + 100\<rparr>) = millis hw + 1"
      by (simp only: millis_after_delay cm_def if_False)
    moreover have "unat ((millis hw - startTime) + 1) = Suc e"
      unfolding e_def using e [unfolded e_def] by (rule u32_succ)
    moreover have "millis hw + 1 - startTime = (millis hw - startTime) + 1"
      by simp
    moreover note wait_arith_ge [OF e m False]
    ultimately show ?thesis
      by (simp only: t e_def cm_def)
  qed
qed

termination readBytes_loop
proof (relation "measures [\<lambda>(buffer, len, bytesRead, startTime, hw). len - bytesRead,
    \<lambda>(buffer, len, bytesRead, startTime, hw).
       (unat RS485_RX_TIMEOUT_MS - unat (millis hw - startTime)) * 1000 - clock_us hw mod 1000]")
  show "wf (measures [\<lambda>(buffer, len, bytesRead, startTime, hw). len - bytesRead,
    \<lambda>(buffer :: u8 list, len :: nat, bytesRead :: nat, startTime, hw).
       (unat RS485_RX_TIMEOUT_MS - unat (millis hw - startTime)) * 1000 - clock_us hw mod 1000])"
    by simp
next
  fix buffer buffer' :: "u8 list" and len bytesRead :: nat and startTime :: u32
    and hw hw2 :: hardware
  assume "bytesRead < len \<and> millis hw - startTime < RS485_RX_TIMEOUT_MS"
  then have "bytesRead < len"
    by (rule conjunct1)
  then have "len - (bytesRead + 1) < len - bytesRead"
    by arith
  then show "((buffer', len, bytesRead + 1, millis hw2, delayMicroseconds 100 hw2),
      buffer, len, bytesRead, startTime, hw)
    \<in> measures [\<lambda>(buffer, len, bytesRead, startTime, hw). len - bytesRead,
    \<lambda>(buffer, len, bytesRead, startTime, hw).
       (unat RS485_RX_TIMEOUT_MS - unat (millis hw - startTime)) * 1000 - clock_us hw mod 1000]"
    by simp
next
  fix buffer :: "u8 list" and len bytesRead :: nat and startTime :: u32 and hw hw1 :: hardware
    and n :: int
  assume c: "bytesRead < len \<and> millis hw - startTime < RS485_RX_TIMEOUT_MS"
    and p: "(n, hw1) = serial_available hw"
  from p have "hw1 = call SerialAvailable hw"
    by (simp add: serial_available_def)
  then have "delayMicroseconds 100 hw1 = (call SerialAvailable hw)\<lparr>clock_us := clock_us hw + 100\<rparr>"
    by (simp add: delayMicroseconds_def call_def)
  moreover have "millis ((call SerialAvailable hw)\<lparr>clock_us := clock_us hw + 100\<rparr>) =
      millis (hw\<lparr>clock_us := clock_us hw + 100\<rparr>)"
    by (simp add: millis_def)
  moreover have "clock_us ((call SerialAvailable hw)\<lparr>clock_us := clock_us hw + 100\<rparr>) =
      clock_us hw + 100"
    by simp
  moreover note wait_step_decreases [of hw startTime]
  ultimately show "((buffer, len, bytesRead, startTime, delayMicroseconds 100 hw1),
      buffer, len, bytesRead, startTime, hw)
    \<in> measures [\<lambda>(buffer, len, bytesRead, startTime, hw). len - bytesRead,
    \<lambda>(buffer, len, bytesRead, startTime, hw).
       (unat RS485_RX_TIMEOUT_MS - unat (millis hw - startTime)) * 1000 - clock_us hw mod 1000]"
    using c by simp
qed


declare readBytes_loop.simps [simp del]

definition RS485_readBytes ::
  "RS485 \<Rightarrow> u8 list option \<Rightarrow> nat \<Rightarrow> hardware \<Rightarrow> (nat \<times> u8 list option \<times> hardware) option" where
  "RS485_readBytes this buffer len hw =
     (if \<not> initialized this then Some (0, buffer, hw)
      else
        (case buffer of
           None \<Rightarrow> Some (0, buffer, hw)
         | Some b \<Rightarrow>
            (case readBytes_loop b len 0 (millis hw) hw of
               None \<Rightarrow> None
             | Some (bytesRead, b', hw') \<Rightarrow> Some (bytesRead, Some b', hw'))))"

definition RS485_write ::
  "RS485 \<Rightarrow> u8 list option \<Rightarrow> nat \<Rightarrow> hardware \<Rightarrow> (nat \<times> hardware) option" where
  "RS485_write this data len hw =
     (if \<not> initialized this then Some (0, hw)
      else
        (case data of
           None \<Rightarrow> Some (0, hw)
         | Some d \<Rightarrow>
            (case serial_write d len (setTransmitMode this hw) of
               None \<Rightarrow> None
             | Some (bytesWritten, hw') \<Rightarrow>
                 Some (bytesWritten, setReceiveMode this (serial_flush hw')))))"

definition RS485_write_byte :: "RS485 \<Rightarrow> u8 \<Rightarrow> hardware \<Rightarrow> nat \<times> hardware" where
  "RS485_write_byte this byte hw =
     (if \<not> initialized this then (0, hw)
      else
        (case serial_write_byte byte (setTransmitMode this hw) of
           (bytesWritten, hw') \<Rightarrow> (bytesWritten, setReceiveMode this (serial_flush hw'))))"

definition RS485_flush :: "RS485 \<Rightarrow> hardware \<Rightarrow> hardware" where
  "RS485_flush this hw = (if initialized this then serial_flush hw else hw)"

definition RS485_peek :: "RS485 \<Rightarrow> hardware \<Rightarrow> int \<times> hardware" where
  "RS485_peek this hw = (if \<not> initialized this then (- 1, hw) else serial_peek hw)"

definition RS485_read :: "RS485 \<Rightarrow> hardware \<Rightarrow> int \<times> hardware" where
  "RS485_read this hw = (if \<not> initialized this then (- 1, hw) else serial_read hw)"

definition isInitialized :: "RS485 \<Rightarrow> bool" where
  "isInitialized this = initialized this"

section \<open>Statistics.cpp\<close>

text \<open>The counters are \<open>unsigned long\<close> and wrap around at \<open>2 ^ 32\<close>.\<close>

record Statistics =
  packets_received :: u32
  packets_transmitted :: u32
  errors :: u32
  start_time :: u32

definition Statistics_new :: "hardware \<Rightarrow> Statistics" where
  "Statistics_new hw =
     \<lparr>packets_received = 0, packets_transmitted = 0, errors = 0, start_time = millis hw\<rparr>"

definition incrementReceived :: "Statistics \<Rightarrow> Statistics" where
  "incrementReceived st = st\<lparr>packets_received := packets_received st + 1\<rparr>"

definition incrementTransmitted :: "Statistics \<Rightarrow> Statistics" where
  "incrementTransmitted st = st\<lparr>packets_transmitted := packets_transmitted st + 1\<rparr>"

definition incrementErrors :: "Statistics \<Rightarrow> Statistics" where
  "incrementErrors st = st\<lparr>errors := errors st + 1\<rparr>"

section \<open>Application.cpp\<close>

text \<open>
  The fields of the class; \<open>command_handler_\<close> holds nothing but references to \<open>rs485_\<close>
  and \<open>statistics_\<close> and is left out.
\<close>

record Application =
  rs485 :: RS485
  statistics :: Statistics
  rx_buffer :: "u8 list"
  last_activity :: u32
  last_stats_print :: u32

definition Application_new :: "hardware \<Rightarrow> Application" where
  "Application_new hw =
     \<lparr>rs485 = RS485_new RS485_DE_RE_PIN RS485_TX_PIN RS485_RX_PIN,
      statistics = Statistics_new hw,
      rx_buffer = replicate RS485_BUFFER_SIZE 0,
      last_activity = 0,
      last_stats_print = 0\<rparr>"

definition console_println :: "string \<Rightarrow> hardware \<Rightarrow> hardware" where
  "console_println s hw = call (ConsolePrint s) hw"

definition printHexData :: "string \<Rightarrow> u8 list option \<Rightarrow> nat \<Rightarrow> hardware \<Rightarrow> hardware option" where
  "printHexData prefix data len hw =
     (case data of
        None \<Rightarrow> Some hw
      | Some d \<Rightarrow>
          if len = 0 then Some hw
          else if len \<le> length d then Some (call (ConsoleHex prefix (take len d)) hw)
          else None)"

definition forwardToNetwork :: "u8 list option \<Rightarrow> nat \<Rightarrow> hardware \<Rightarrow> hardware" where
  "forwardToNetwork data len hw = hw"

definition sendRS485Data ::
  "Application \<Rightarrow> u8 list option \<Rightarrow> nat \<Rightarrow> hardware \<Rightarrow> (Application \<times> hardware) option" where
  "sendRS485Data this data len hw =
     (if data = None \<or> len = 0 then Some (this, hw)
      else if len > RS485_BUFFER_SIZE then
        Some (this\<lparr>statistics := incrementErrors (statistics this)\<rparr>,
              console_println ''ERROR: Data too large to transmit'' hw)
      else
        (case RS485_write (rs485 this) data len hw of
           None \<Rightarrow> None
         | Some (bytesWritten, hw') \<Rightarrow>
             if bytesWritten = len then
               (let this' = this\<lparr>statistics := incrementTransmitted (statistics this)\<rparr>
                in if DEBUG_MODE_defined
                   then map_option (Pair this') (printHexData ''TX'' data len hw')
                   else Some (this', hw'))
             else
               Some (this\<lparr>statistics := incrementErrors (statistics this)\<rparr>,
                     console_println ''ERROR: Failed to transmit RS-485 data'' hw')))"

definition processReceivedPacket ::
  "Application \<Rightarrow> u8 list option \<Rightarrow> nat \<Rightarrow> hardware \<Rightarrow> (Application \<times> hardware) option" where
  "processReceivedPacket this data len hw =
     (if data = None \<or> len = 0 then Some (this, hw)
      else
        (case (if ECHO_MODE_defined then sendRS485Data this data len hw else Some (this, hw)) of
           None \<Rightarrow> None
         | Some (this', hw') \<Rightarrow>
             Some (this', if ENABLE_WIFI_defined then forwardToNetwork data len hw' else hw')))"

section \<open>The command scheduler\<close>

text \<open>
  The scheduler that enters external-program mode and repeats the command lives in the
  firmware's main sketch (\<open>Controller.ino\<close>, named by \<open>MQTTHandler.h\<close> and \<open>PumpStatus.h\<close>), which is
  not among the sources; of it, the sources hold only the timing constants of
  \<open>PentairProtocol.h\<close>. The definitions of this section follow section 4.4 of the
  specification instead.
\<close>

text \<open>
  Modelled from the spec: the command kinds of a PendingCommand: write-register, set run/stop, set mode, set
  remote/local and query status.
\<close>

datatype CommandKind = WriteRegister | SetRunStop | SetMode | SetRemoteLocal | QueryStatus

text \<open>
  Modelled from the spec: what a collaborator submits: the command kind, the target address and the payload.
\<close>

record Command =
  cmdKind :: CommandKind
  cmdTarget :: u8
  cmdPayload :: "u8 list"

text \<open>
  Modelled from the spec: the PendingCommand of the data model: the command with its issue timestamp, timeout
  deadline, retries remaining and optional repeat interval (set only for external-program-mode
  commands).
\<close>

record PendingCommand =
  command :: Command
  issuedAt :: nat
  deadline :: nat
  retriesRemaining :: nat
  repeatInterval :: "nat option"

text \<open>
  Modelled from the spec: the decoded Frame handed to \<open>onFrameReceived\<close> by the reassembler; its checksum has
  been verified already and is not kept.
\<close>

record RxFrame =
  frVersion :: u8
  frDestination :: u8
  frSource :: u8
  frCommandId :: u8
  frData :: "u8 list"

text \<open>
  Modelled from the spec: the states \<open>IDLE\<close>, \<open>AWAITING_RESPONSE\<close> and \<open>RETRY\<close> of the session state machine.
\<close>

datatype SessionState = IDLE | AWAITING_RESPONSE | RETRY

text \<open>
  Modelled from the spec: the results \<open>accepted\<close> and \<open>Busy\<close> of \<open>submit\<close>.
\<close>

datatype SubmitResult = Accepted | Busy

text \<open>
  Modelled from the spec: what the scheduler does that can be observed from outside: it writes a command to the bus,
  it re-issues the external-program command (enqueues it ahead of any other pending work),
  or it reports a command as failed.
\<close>

datatype Event = Written Command | Reissued Command | Failed Command

text \<open>
  Modelled from the spec: the state of the Command Scheduler: the session state, the one outstanding request, the
  queued work, the orthogonal state \<open>EXTERNAL_PROGRAM_ACTIVE\<close> (the armed command and the time its
  next repeat is due, or \<open>None\<close> when disarmed), the time since which the bus has been idle, the
  last status data with its timestamp, the engine's own address, the configured pump address
  and the configured retry limit.
\<close>

record Scheduler =
  session :: SessionState
  pending :: "PendingCommand option"
  workQueue :: "Command list"
  externalProgram :: "(Command \<times> nat) option"
  busIdleSince :: nat
  decodedStatus :: "(u8 list \<times> nat) option"
  ownAddress :: u8
  pumpAddress :: u8
  retryLimit :: nat

text \<open>
  Modelled from the spec: the command ids of section 6 (\<open>0x01\<close> write-register, \<open>0x04\<close> remote/local, \<open>0x05\<close>
  set mode, \<open>0x06\<close> run/stop, \<open>0x07\<close> status query).
\<close>

definition commandIdOf :: "CommandKind \<Rightarrow> u8" where
  "commandIdOf k =
     (case k of
        WriteRegister \<Rightarrow> 0x01
      | SetRemoteLocal \<Rightarrow> 0x04
      | SetMode \<Rightarrow> CMD_MODE
      | SetRunStop \<Rightarrow> 0x06
      | QueryStatus \<Rightarrow> CMD_STATUS)"

text \<open>
  Modelled from the spec: a command selects an external-program mode when it is a set-mode command whose mode byte is
  one of \<open>0x09\<close> to \<open>0x0C\<close> (external programs 1 to 4).
\<close>

definition selectsExternalProgram :: "Command \<Rightarrow> bool" where
  "selectsExternalProgram c =
     (cmdKind c = SetMode \<and>
      (case cmdPayload c of
         [m] \<Rightarrow> MODE_EXT_PROG_1 \<le> m \<and> m \<le> MODE_EXT_PROG_4
       | _ \<Rightarrow> False))"

text \<open>
  Modelled from the spec: the periodic poll, a status query without payload to the pump.
\<close>

definition statusPoll :: "Scheduler \<Rightarrow> Command" where
  "statusPoll s = \<lparr>cmdKind = QueryStatus, cmdTarget = pumpAddress s, cmdPayload = []\<rparr>"

text \<open>
  Modelled from the spec: writing a command to the bus makes it the outstanding request, with the response timeout
  of 2000 ms as its deadline, and the scheduler awaits the response.
\<close>

definition issue :: "nat \<Rightarrow> Command \<Rightarrow> nat \<Rightarrow> Scheduler \<Rightarrow> Scheduler \<times> Event list" where
  "issue now c retries s =
     (s\<lparr>session := AWAITING_RESPONSE,
        pending := Some \<lparr>command = c, issuedAt = now, deadline = now + CMD_RESPONSE_TIMEOUT,
                         retriesRemaining = retries,
                         repeatInterval = (if selectsExternalProgram c
                                           then Some EXT_PROG_REPEAT_INTERVAL else None)\<rparr>,
        busIdleSince := now\<rparr>,
      [Written c])"

text \<open>
  Modelled from the spec: the collaborator's explicit cancellation disarms the repeat timer.
\<close>

definition cancelExternalProgram :: "Scheduler \<Rightarrow> Scheduler" where
  "cancelExternalProgram s = s\<lparr>externalProgram := None\<rparr>"

text \<open>
  Modelled from the spec: \<open>submit\<close> rejects a new command with \<open>Busy\<close> while one is awaiting its response or being
  retried, except poll requests, which queue; accepting a command of a different mode disarms
  the repeat timer together with the acceptance.
\<close>

definition submit :: "nat \<Rightarrow> Command \<Rightarrow> Scheduler \<Rightarrow> SubmitResult \<times> Scheduler \<times> Event list" where
  "submit now c s =
     (if session s \<noteq> IDLE then
        (if cmdKind c = QueryStatus then (Accepted, s\<lparr>workQueue := workQueue s @ [c]\<rparr>, [])
         else (Busy, s, []))
      else
        (let s' = (if cmdKind c = SetMode \<and> map_option fst (externalProgram s) \<noteq> Some c
                   then cancelExternalProgram s else s)
         in (Accepted, issue now c (retryLimit s') s')))"

text \<open>
  Modelled from the spec: a frame matches the outstanding request when it comes from the request's target and
  carries its command id.
\<close>

definition matches :: "RxFrame \<Rightarrow> PendingCommand \<Rightarrow> bool" where
  "matches f p =
     (frSource f = cmdTarget (command p) \<and> frCommandId f = commandIdOf (cmdKind (command p)))"

text \<open>
  Modelled from the spec: \<open>onFrameReceived\<close> ignores a frame that is addressed neither to the engine nor to everyone,
  updates the status from a status response of the configured pump, and resolves the outstanding
  request if the frame matches it; once a command selecting an external-program mode has
  succeeded in this way, the repeat timer is armed, one repeat interval ahead.
\<close>

definition onFrameReceived :: "nat \<Rightarrow> RxFrame \<Rightarrow> Scheduler \<Rightarrow> Scheduler" where
  "onFrameReceived now f s =
     (if frDestination f \<noteq> ownAddress s \<and> frDestination f \<noteq> ADDR_BROADCAST then s
      else
        (let s1 = (if frCommandId f = CMD_STATUS \<and> frSource f = pumpAddress s \<and>
                      length (frData f) = STAT_DATA_LEN
                   then s\<lparr>decodedStatus := Some (frData f, now)\<rparr> else s)
         in case pending s1 of
              None \<Rightarrow> s1
            | Some p \<Rightarrow>
                if session s1 = AWAITING_RESPONSE \<and> matches f p then
                  s1\<lparr>session := IDLE, pending := None,
                     externalProgram :=
                       (if selectsExternalProgram (command p)
                        then Some (command p, now + EXT_PROG_REPEAT_INTERVAL)
                        else externalProgram s1),
                     busIdleSince := now\<rparr>
                else s1))"

text \<open>
  Modelled from the spec: on a response timeout the scheduler goes to \<open>RETRY\<close> and re-sends the same command while
  retries remain; after that it returns to \<open>IDLE\<close> and reports the failure.
\<close>

definition checkTimeout :: "nat \<Rightarrow> Scheduler \<Rightarrow> Scheduler \<times> Event list" where
  "checkTimeout now s =
     (case pending s of
        None \<Rightarrow> (s, [])
      | Some p \<Rightarrow>
          if session s = AWAITING_RESPONSE \<and> deadline p \<le> now then
            (if 0 < retriesRemaining p
             then issue now (command p) (retriesRemaining p - 1) (s\<lparr>session := RETRY\<rparr>)
             else (s\<lparr>session := IDLE, pending := None\<rparr>, [Failed (command p)]))
          else (s, []))"

text \<open>
  Modelled from the spec: every fixed interval the armed external-program command is re-issued, enqueued ahead of
  any other pending work, and the timer is armed for the next interval.
\<close>

definition checkRepeat :: "nat \<Rightarrow> Scheduler \<Rightarrow> Scheduler \<times> Event list" where
  "checkRepeat now s =
     (case externalProgram s of
        None \<Rightarrow> (s, [])
      | Some (c, due) \<Rightarrow>
          if due \<le> now then
            (s\<lparr>workQueue := c # workQueue s,
               externalProgram := Some (c, due + EXT_PROG_REPEAT_INTERVAL)\<rparr>,
             [Reissued c])
          else (s, []))"

text \<open>
  Modelled from the spec: a low-priority status poll is enqueued when the bus has been idle past the poll interval;
  it defers to the external-program repeat when both are due (the repeat is then in the queue).
\<close>

definition checkPoll :: "nat \<Rightarrow> Scheduler \<Rightarrow> Scheduler \<times> Event list" where
  "checkPoll now s =
     (if session s = IDLE \<and> workQueue s = [] \<and> busIdleSince s + STATUS_QUERY_INTERVAL \<le> now
      then (s\<lparr>workQueue := [statusPoll s]\<rparr>, [])
      else (s, []))"

text \<open>
  Modelled from the spec: one request is outstanding at a time: when the scheduler is idle, the first queued command
  is written to the bus.
\<close>

definition dispatch :: "nat \<Rightarrow> Scheduler \<Rightarrow> Scheduler \<times> Event list" where
  "dispatch now s =
     (if session s = IDLE then
        (case workQueue s of
           [] \<Rightarrow> (s, [])
         | c # cs \<Rightarrow> issue now c (retryLimit s) (s\<lparr>workQueue := cs\<rparr>))
      else (s, []))"

text \<open>
  Modelled from the spec: \<open>tick(now)\<close> drives the timeout, retry, repeat and poll timers, in this order, and then
  dispatches.
\<close>

definition tick :: "nat \<Rightarrow> Scheduler \<Rightarrow> Scheduler \<times> Event list" where
  "tick now s =
     (let (s1, e1) = checkTimeout now s;
          (s2, e2) = checkRepeat now s1;
          (s3, e3) = checkPoll now s2;
          (s4, e4) = dispatch now s3
      in (s4, e1 @ e2 @ e3 @ e4))"

text \<open>
  Modelled from the spec: the control loop calling \<open>tick\<close> at the given times with no frame arriving and no command
  submitted in between; it collects the events.
\<close>

fun run_ticks :: "Scheduler \<Rightarrow> nat list \<Rightarrow> Scheduler \<times> Event list" where
  "run_ticks s [] = (s, [])"
| "run_ticks s (now # ts) =
     (let (s1, e1) = tick now s; (s2, e2) = run_ticks s1 ts in (s2, e1 @ e2))"

text \<open>
  Modelled from the spec: the commands re-issued, in order, among a list of events.
\<close>

fun reissues :: "Event list \<Rightarrow> Command list" where
  "reissues [] = []"
| "reissues (Reissued c # es) = c # reissues es"
| "reissues (e # es) = reissues es"


section \<open>The codec loops and the frame they build\<close>

text \<open>
  The loops are characterised first: the summing loop adds the bytes between its bounds,
  the copy loop moves \<open>dataLen\<close> bytes, and \<open>pentairBuildPacket\<close> leaves \<open>frame_bytes\<close> at the
  start of the buffer and the bytes behind the frame untouched.
\<close>

lemma sum_loop_eq:
  "bound \<le> length packet \<Longrightarrow>
   sum_loop packet i bound acc = Some (acc + wsum (take (bound - i) (drop i packet)))"
proof (induction packet i bound acc rule: sum_loop.induct)
  case (1 packet i bound acc)
  show ?case
  proof (cases "i < bound")
    case True
    with "1.prems" have il: "i < length packet" by simp
    then have r: "rd packet i = Some (packet ! i)" by (simp add: rd_def)
    from True have "bound - i = Suc (bound - (i + 1))" by simp
    then have t: "take (bound - i) (drop i packet) = packet ! i # take (bound - (i + 1)) (drop (i + 1) packet)"
      using il by (simp add: Cons_nth_drop_Suc [symmetric])
    have "sum_loop packet i bound acc = sum_loop packet (i + 1) bound (acc + ucast (packet ! i))"
      using True r by (subst sum_loop.simps) simp
    also have "\<dots> = Some (acc + ucast (packet ! i) + wsum (take (bound - (i + 1)) (drop (i + 1) packet)))"
      using "1.IH" [OF True r] "1.prems" by simp
    finally show ?thesis
      by (simp add: t wsum_def add.assoc)
  next
    case False
    then show ?thesis
      by (subst sum_loop.simps) (simp add: wsum_def)
  qed
qed

lemma u8_succ: "(i::u8) < n \<Longrightarrow> unat (i + 1) = Suc (unat i)"
proof -
  assume "i < n"
  then have lt: "unat i < unat n"
    by (simp add: word_less_nat_alt)
  have "unat n < 256"
    using unsigned_less [of n, where ?'a = nat] by simp
  with lt show ?thesis
    by (simp add: unat_word_ariths)
qed

lemma copy_loop_eq:
  "idx + (unat dataLen - unat i) \<le> length buffer \<Longrightarrow> unat dataLen \<le> length data \<Longrightarrow>
   copy_loop buffer idx data i dataLen =
     Some (take idx buffer @ take (unat dataLen - unat i) (drop (unat i) data)
             @ drop (idx + (unat dataLen - unat i)) buffer,
           idx + (unat dataLen - unat i))"
proof (induction buffer idx data i dataLen rule: copy_loop.induct)
  case (1 buffer idx data i dataLen)
  show ?case
  proof (cases "i < dataLen")
    case True
    then have lt: "unat i < unat dataLen"
      by (simp add: word_less_nat_alt)
    have su: "unat (i + 1) = Suc (unat i)"
      using True by (rule u8_succ)
    from lt "1.prems" have r: "rd data (unat i) = Some (data ! unat i)"
      by (simp add: rd_def)
    from lt "1.prems" have il: "idx < length buffer"
      by simp
    then have w: "wr buffer idx (data ! unat i) = Some (buffer[idx := data ! unat i])"
      by (simp add: wr_def)
    have k: "unat dataLen - unat i = Suc (unat dataLen - unat (i + 1))"
      using lt su by simp
    have step: "copy_loop buffer idx data i dataLen =
        copy_loop (buffer[idx := data ! unat i]) (idx + 1) data (i + 1) dataLen"
      using True r w by (subst copy_loop.simps) simp
    have p1: "idx + 1 + (unat dataLen - unat (i + 1)) \<le> length (buffer[idx := data ! unat i])"
      using "1.prems" k by simp
    have t1: "take (idx + 1) (buffer[idx := data ! unat i]) = take idx buffer @ [data ! unat i]"
      using il by (simp add: take_Suc_conv_app_nth)
    have t2: "take (unat dataLen - unat i) (drop (unat i) data) =
        data ! unat i # take (unat dataLen - unat (i + 1)) (drop (unat (i + 1)) data)"
      using lt "1.prems" by (simp add: k su Cons_nth_drop_Suc [symmetric])
    have t3: "drop (idx + 1 + (unat dataLen - unat (i + 1))) (buffer[idx := data ! unat i]) =
        drop (idx + (unat dataLen - unat i)) buffer"
      by (simp add: k)
    show ?thesis
      unfolding step "1.IH" [OF True r w p1 "1.prems"(2)] t1 t2 t3
      using k by simp
  next
    case False
    then have "unat dataLen - unat i = 0"
      by (simp add: word_less_nat_alt)
    with False show ?thesis
      by (subst copy_loop.simps) simp
  qed
qed

lemma wr_at_prefix:
  "length pre < length buffer \<Longrightarrow>
   wr (pre @ drop (length pre) buffer) (length pre) v =
     Some ((pre @ [v]) @ drop (length (pre @ [v])) buffer)"
  by (simp add: wr_def list_update_append drop_Suc Cons_nth_drop_Suc [symmetric] flip: drop_Suc)

lemma header_writes:
  assumes "9 \<le> length buffer"
  shows "do { b \<leftarrow> wr buffer 0 v0; b \<leftarrow> wr b 1 v1; b \<leftarrow> wr b 2 v2; b \<leftarrow> wr b 3 v3;
              b \<leftarrow> wr b 4 v4; b \<leftarrow> wr b 5 v5; b \<leftarrow> wr b 6 v6; b \<leftarrow> wr b 7 v7;
              wr b 8 v8 } = Some ([v0, v1, v2, v3, v4, v5, v6, v7, v8] @ drop 9 buffer)"
proof -
  from assms obtain x0 x1 x2 x3 x4 x5 x6 x7 x8 rest
    where "buffer = x0 # x1 # x2 # x3 # x4 # x5 # x6 # x7 # x8 # rest"
    by (auto simp: numeral_eq_Suc Suc_le_length_iff)
  then show ?thesis
    by (simp add: wr_def)
qed

lemma build_eq:
  assumes buf: "11 + unat dataLen \<le> length buffer" and dat: "unat dataLen \<le> length data"
  shows "pentairBuildPacket buffer dst src cmd data dataLen =
           Some (frame_bytes dst src cmd (take (unat dataLen) data) dataLen
                   @ drop (11 + unat dataLen) buffer, 11 + unat dataLen)"
proof -
  define n where "n = unat dataLen"
  define hdr :: "u8 list" where "hdr = [0xFF, 0x00, 0xFF, 0xA5, 0x00, dst, src, cmd, dataLen]"
  define body where "body = hdr @ take n data"
  define cs where "cs = wsum (drop 3 body)"
  define hi :: u8 where "hi = ucast ((drop_bit 8 cs) AND 0xFF)"
  define lo :: u8 where "lo = ucast (cs AND 0xFF)"
  have lh: "length hdr = 9"
    by (simp add: hdr_def)
  have lbody: "length body = 9 + n"
    using dat by (simp add: body_def lh n_def)
  from buf have l9: "9 \<le> length buffer" by simp
  have hw: "do { b \<leftarrow> wr buffer 0 0xFF; b \<leftarrow> wr b 1 0x00; b \<leftarrow> wr b 2 0xFF; b \<leftarrow> wr b 3 0xA5;
              b \<leftarrow> wr b 4 PENTAIR_VERSION; b \<leftarrow> wr b 5 dst; b \<leftarrow> wr b 6 src; b \<leftarrow> wr b 7 cmd;
              wr b 8 dataLen } = Some (hdr @ drop 9 buffer)"
    using header_writes [OF l9] by (simp add: PENTAIR_VERSION_def hdr_def)
  have "copy_loop (hdr @ drop 9 buffer) 9 data 0 dataLen =
      Some (take 9 (hdr @ drop 9 buffer) @ take n (drop 0 data) @ drop (9 + n) (hdr @ drop 9 buffer), 9 + n)"
    using buf dat lh by (simp add: copy_loop_eq n_def)
  moreover have "drop (9 + n) (hdr @ drop 9 buffer) = drop (9 + n) buffer"
    by (simp add: lh add.commute)
  ultimately have cl: "copy_loop (hdr @ drop 9 buffer) 9 data 0 dataLen =
      Some (body @ drop (9 + n) buffer, 9 + n)"
    by (simp add: lh body_def)
  have "sum_loop (body @ drop (9 + n) buffer) PKT_IDX_LEAD (9 + n) 0 =
      Some (0 + wsum (take (9 + n - PKT_IDX_LEAD) (drop PKT_IDX_LEAD (body @ drop (9 + n) buffer))))"
    by (rule sum_loop_eq) (simp add: lbody)
  moreover have "take (9 + n - 3) (drop 3 (body @ drop (9 + n) buffer)) = drop 3 body"
    by (simp add: lbody)
  ultimately have sl: "sum_loop (body @ drop (9 + n) buffer) PKT_IDX_LEAD (9 + n) 0 = Some cs"
    by (simp add: PKT_IDX_LEAD_def cs_def)
  have w1: "wr (body @ drop (9 + n) buffer) (9 + n) hi = Some (body @ hi # drop (10 + n) buffer)"
    using wr_at_prefix [of body buffer hi] buf by (simp add: lbody n_def)
  have w2: "wr (body @ hi # drop (10 + n) buffer) (10 + n) lo =
      Some (body @ hi # lo # drop (11 + n) buffer)"
    using wr_at_prefix [of "body @ [hi]" buffer lo] buf by (simp add: lbody n_def)
  have fb: "frame_bytes dst src cmd (take (unat dataLen) data) dataLen = body @ [hi, lo]"
    by (simp add: frame_bytes_def frame_body_def Let_def body_def hdr_def cs_def hi_def lo_def n_def)
  have "pentairBuildPacket buffer dst src cmd data dataLen =
      do { b \<leftarrow> do { b \<leftarrow> wr buffer 0 0xFF; b \<leftarrow> wr b 1 0x00; b \<leftarrow> wr b 2 0xFF; b \<leftarrow> wr b 3 0xA5;
              b \<leftarrow> wr b 4 PENTAIR_VERSION; b \<leftarrow> wr b 5 dst; b \<leftarrow> wr b 6 src; b \<leftarrow> wr b 7 cmd;
              wr b 8 dataLen };
           (b, idx) \<leftarrow> copy_loop b 9 data 0 dataLen;
           checksum \<leftarrow> sum_loop b PKT_IDX_LEAD idx 0;
           b \<leftarrow> wr b idx (ucast ((drop_bit 8 checksum) AND 0xFF));
           b \<leftarrow> wr b (idx + 1) (ucast (checksum AND 0xFF));
           Some (b, idx + 2) }"
    by (simp add: pentairBuildPacket_def)
  also have "\<dots> = Some (body @ hi # lo # drop (11 + n) buffer, 11 + n)"
    unfolding hw by (simp add: cl sl w1 w2 hi_def [symmetric] lo_def [symmetric])
  finally show ?thesis
    by (simp add: fb n_def)
qed

lemma split_join:
  fixes cs :: u16
  shows "push_bit 8 (ucast (ucast ((drop_bit 8 cs) AND 0xFF) :: u8) :: u16)
           OR ucast (ucast (cs AND 0xFF) :: u8) = cs"
proof -
  have m: "(0xFF :: u16) = mask 8"
    by (simp add: mask_eq_exp_minus_1)
  show ?thesis
    unfolding m
    by (rule bit_word_eqI) (auto simp: bit_simps)
qed

lemma unat_lo:
  fixes cs :: u16
  shows "unat (ucast (cs AND 0xFF) :: u8) = unat cs mod 256"
proof -
  have m: "(0xFF :: u16) = mask 8"
    by (simp add: mask_eq_exp_minus_1)
  show ?thesis
    unfolding m
    by (simp add: unsigned_ucast_eq take_bit_eq_mod unat_mod
        flip: take_bit_eq_mask)
qed

lemma unat_hi_lo:
  fixes cs :: u16
  shows "256 * unat (ucast ((drop_bit 8 cs) AND 0xFF) :: u8) + unat (ucast (cs AND 0xFF) :: u8) =
           unat cs"
proof -
  have "unat cs < 65536"
    using unsigned_less [of cs, where ?'a = nat] by simp
  then have "unat cs div 256 < 256"
    by simp
  moreover have "unat (drop_bit 8 cs) = unat cs div 256"
    by (simp add: unat_drop_bit_eq drop_bit_eq_div unat_div)
  ultimately show ?thesis
    unfolding unat_lo by simp
qed

lemma unat_wsum: "unat (wsum xs) = sum_list (map unat xs) mod 65536"
proof (induction xs)
  case Nil
  show ?case by (simp add: wsum_def)
next
  case (Cons x xs)
  have "unat (wsum (x # xs)) = (unat (ucast x :: u16) + unat (wsum xs)) mod 65536"
    by (simp add: wsum_def unat_word_ariths)
  also have "unat (ucast x :: u16) = unat x"
    using unsigned_less [of x, where ?'a = nat]
    by (simp add: unsigned_ucast_eq take_bit_eq_mod)
  finally show ?case
    by (simp add: Cons.IH mod_add_right_eq)
qed

lemma wsum_append: "wsum (xs @ ys) = wsum xs + wsum ys"
  by (simp add: wsum_def)

lemma wsum_update:
  "i < length xs \<Longrightarrow> wsum (xs[i := v]) = wsum xs - ucast (xs ! i) + ucast v"
proof -
  assume il: "i < length xs"
  then have "xs = take i xs @ xs ! i # drop (Suc i) xs"
    by (simp add: id_take_nth_drop [symmetric])
  moreover from il have "xs[i := v] = take i xs @ v # drop (Suc i) xs"
    by (simp add: upd_conv_take_nth_drop)
  ultimately have "wsum xs = wsum (take i xs) + (ucast (xs ! i) + wsum (drop (Suc i) xs))"
    and "wsum (xs[i := v]) = wsum (take i xs) + (ucast v + wsum (drop (Suc i) xs))"
    by (metis wsum_append wsum_def list.simps(9) sum_list.Cons)+
  then show ?thesis
    by simp
qed

lemma ucast_u8_inj: "(ucast (a :: u8) :: u16) = ucast (b :: u8) \<Longrightarrow> a = b"
proof -
  assume "(ucast a :: u16) = ucast b"
  then have "unat (ucast a :: u16) = unat (ucast b :: u16)"
    by simp
  moreover have "unat (ucast a :: u16) = unat a" "unat (ucast b :: u16) = unat b"
    using unsigned_less [of a, where ?'a = nat] unsigned_less [of b, where ?'a = nat]
    by (simp_all add: unsigned_ucast_eq take_bit_eq_mod)
  ultimately show "a = b"
    by (simp add: word_unat_eq_iff)
qed

lemma word_of_nat_byte_sum: "(word_of_nat (sum_list (map unat xs)) :: u16) = wsum xs"
  by (induction xs) (simp_all add: wsum_def)

lemma unat_len_byte: "n \<le> 255 \<Longrightarrow> unat (word_of_nat n :: u8) = n"
  by (simp add: unat_of_nat)

lemma unat_len_byte_mod: "unat (word_of_nat n :: u8) = n mod 256"
  by (simp add: unat_of_nat)

lemma checksum_eq:
  "2 \<le> len \<Longrightarrow> len - 2 \<le> length packet \<Longrightarrow>
   pentairChecksum packet len = Some (wsum (take (len - 2 - 3) (drop 3 packet)))"
  by (simp add: pentairChecksum_def size_t_sub_def sum_loop_eq PKT_IDX_LEAD_def)

lemma verify_eq:
  "11 \<le> len \<Longrightarrow> len \<le> length packet \<Longrightarrow>
   pentairVerifyChecksum packet len =
     Some (wsum (take (len - 2 - 3) (drop 3 packet)) =
           push_bit 8 (ucast (packet ! (len - 2))) OR ucast (packet ! (len - 1)))"
proof -
  assume len: "11 \<le> len" and sz: "len \<le> length packet"
  then have "rd packet (len - 2) = Some (packet ! (len - 2))"
    and "rd packet (len - 1) = Some (packet ! (len - 1))"
    by (simp_all add: rd_def)
  moreover from len sz
  have "pentairChecksum packet len = Some (wsum (take (len - 2 - 3) (drop 3 packet)))"
    by (simp add: checksum_eq)
  ultimately show ?thesis
    using len by (simp add: pentairVerifyChecksum_def PENTAIR_MIN_PKT_LEN_def)
qed

lemma find_at_start:
  "11 \<le> len \<Longrightarrow> take 4 buffer = [0xFF, 0x00, 0xFF, 0xA5] \<Longrightarrow>
   pentairFindMessage buffer len = Some 0"
proof -
  assume len: "11 \<le> len" and mk: "take 4 buffer = [0xFF, 0x00, 0xFF, 0xA5]"
  have "buffer = take 4 buffer @ drop 4 buffer"
    by simp
  with mk have "buffer = 0xFF # 0x00 # 0xFF # 0xA5 # drop 4 buffer"
    by simp
  then obtain rest where "buffer = 0xFF # 0x00 # 0xFF # 0xA5 # rest" ..
  then have "marker_at buffer 0 = Some True"
    by (simp add: marker_at_def rd_def)
  with len show ?thesis
    by (simp add: pentairFindMessage_def PENTAIR_MIN_PKT_LEN_def find_loop.simps [of buffer 0]
        size_t_sub_def int_of_size_t_def)
qed

lemma length_frame_body: "length (frame_body dst src cmd payload dataLen) = 9 + length payload"
  by (simp add: frame_body_def)

lemma frame_fields:
  "take 4 (frame_bytes dst src cmd payload dataLen @ rest) = [0xFF, 0x00, 0xFF, 0xA5]"
  "(frame_bytes dst src cmd payload dataLen @ rest) ! 4 = 0x00"
  "(frame_bytes dst src cmd payload dataLen @ rest) ! 5 = dst"
  "(frame_bytes dst src cmd payload dataLen @ rest) ! 6 = src"
  "(frame_bytes dst src cmd payload dataLen @ rest) ! 7 = cmd"
  "(frame_bytes dst src cmd payload dataLen @ rest) ! 8 = dataLen"
  "take (length payload) (drop 9 (frame_bytes dst src cmd payload dataLen @ rest)) = payload"
  "length (frame_bytes dst src cmd payload dataLen @ rest) = 11 + length payload + length rest"
  by (simp_all add: frame_bytes_def frame_body_def Let_def)

lemma verify_body:
  assumes "9 \<le> length body"
  shows "pentairVerifyChecksum (body @ h # l # rest) (length body + 2) =
           Some (wsum (drop 3 body) = push_bit 8 (ucast h) OR ucast l)"
proof -
  let ?p = "body @ h # l # rest"
  let ?len = "length body + 2"
  have "take (?len - 2 - 3) (drop 3 ?p) = drop 3 body"
    using assms by simp
  moreover have "?p ! (?len - 2) = h"
    by (simp add: nth_append)
  moreover have "?p ! (?len - 1) = l"
    by (simp add: nth_append)
  moreover have "11 \<le> ?len" "?len \<le> length ?p"
    using assms by simp_all
  ultimately show ?thesis
    by (simp only: verify_eq)
qed

lemma verify_frame:
  "pentairVerifyChecksum (frame_bytes dst src cmd payload dataLen @ rest) (11 + length payload) =
     Some True"
proof -
  define body where "body = frame_body dst src cmd payload dataLen"
  define cs where "cs = wsum (drop 3 body)"
  have lb: "length body = 9 + length payload"
    by (simp add: body_def length_frame_body)
  have fb: "frame_bytes dst src cmd payload dataLen @ rest =
      body @ ucast ((drop_bit 8 cs) AND 0xFF) # ucast (cs AND 0xFF) # rest"
    by (simp add: frame_bytes_def Let_def body_def cs_def)
  have "11 + length payload = length body + 2"
    by (simp add: lb)
  then show ?thesis
    unfolding fb using verify_body [of body] lb
    by (simp add: split_join cs_def)
qed

lemma verify_frame_corrupted:
  assumes lo: "3 \<le> i" and hi: "i < 9 + length payload"
    and ne: "v \<noteq> (frame_bytes dst src cmd payload dataLen @ rest) ! i"
  shows "pentairVerifyChecksum ((frame_bytes dst src cmd payload dataLen @ rest)[i := v])
           (11 + length payload) = Some False"
proof -
  define body where "body = frame_body dst src cmd payload dataLen"
  define cs where "cs = wsum (drop 3 body)"
  define h :: u8 where "h = ucast ((drop_bit 8 cs) AND 0xFF)"
  define l :: u8 where "l = ucast (cs AND 0xFF)"
  have lb: "length body = 9 + length payload"
    by (simp add: body_def length_frame_body)
  have fb: "frame_bytes dst src cmd payload dataLen @ rest = body @ h # l # rest"
    by (simp add: frame_bytes_def Let_def body_def cs_def h_def l_def)
  from hi lb have ib: "i < length body"
    by simp
  then have upd: "(body @ h # l # rest)[i := v] = body[i := v] @ h # l # rest"
    by (simp add: list_update_append)
  from ne ib have ne': "v \<noteq> body ! i"
    by (simp add: fb nth_append)
  have "drop 3 (body[i := v]) = (drop 3 body)[i - 3 := v]"
    using lo by (simp add: drop_update_swap)
  moreover have "i - 3 < length (drop 3 body)"
    using lo ib by simp
  moreover have "drop 3 body ! (i - 3) = body ! i"
    using lo ib by simp
  ultimately have ws: "wsum (drop 3 (body[i := v])) = cs - ucast (body ! i) + ucast v"
    by (simp add: wsum_update cs_def)
  have "(ucast v :: u16) \<noteq> ucast (body ! i)"
    using ne' ucast_u8_inj by blast
  then have "cs - ucast (body ! i) + ucast v \<noteq> cs"
    by simp
  moreover have "push_bit 8 (ucast h) OR ucast l = cs"
    by (simp add: h_def l_def split_join)
  moreover have "pentairVerifyChecksum (body[i := v] @ h # l # rest) (length (body[i := v]) + 2) =
      Some (wsum (drop 3 (body[i := v])) = push_bit 8 (ucast h) OR ucast l)"
    by (rule verify_body) (simp add: lb)
  moreover have "length (body[i := v]) + 2 = 11 + length payload"
    by (simp add: lb)
  ultimately show ?thesis
    by (simp add: fb upd ws)
qed

lemma frame_checksum_field:
  "checksum_field (frame_bytes dst src cmd payload dataLen @ rest) (11 + length payload) =
     byte_sum (frame_bytes dst src cmd payload dataLen @ rest) 3 (9 + length payload) mod 65536"
proof -
  define body where "body = frame_body dst src cmd payload dataLen"
  define cs where "cs = wsum (drop 3 body)"
  define h :: u8 where "h = ucast ((drop_bit 8 cs) AND 0xFF)"
  define l :: u8 where "l = ucast (cs AND 0xFF)"
  have lb: "length body = 9 + length payload"
    by (simp add: body_def length_frame_body)
  have fb: "frame_bytes dst src cmd payload dataLen @ rest = body @ h # l # rest"
    by (simp add: frame_bytes_def Let_def body_def cs_def h_def l_def)
  have "take (9 + length payload - 3) (drop 3 (body @ h # l # rest)) = drop 3 body"
    by (simp add: lb)
  then have "byte_sum (body @ h # l # rest) 3 (9 + length payload) = sum_list (map unat (drop 3 body))"
    by (simp only: byte_sum_def)
  moreover have "(body @ h # l # rest) ! (11 + length payload - 2) = h"
    by (simp add: nth_append lb)
  moreover have "(body @ h # l # rest) ! (11 + length payload - 1) = l"
    by (simp add: nth_append lb)
  moreover have "256 * unat h + unat l = unat cs"
    by (simp only: h_def l_def unat_hi_lo)
  ultimately show ?thesis
    unfolding fb checksum_field_def by (simp add: cs_def unat_wsum)
qed

lemma frame_checksum:
  "pentairChecksum (frame_bytes dst src cmd payload dataLen @ rest) (11 + length payload) =
     Some (word_of_nat (byte_sum (frame_bytes dst src cmd payload dataLen @ rest) 3 (9 + length payload)))"
proof -
  let ?p = "frame_bytes dst src cmd payload dataLen @ rest"
  have "length ?p = 11 + length payload + length rest"
    by (rule frame_fields)
  then have "pentairChecksum ?p (11 + length payload) =
      Some (wsum (take (11 + length payload - 2 - 3) (drop 3 ?p)))"
    by (intro checksum_eq) simp_all
  moreover have "11 + length payload - 2 - 3 = 9 + length payload - 3"
    by simp
  ultimately show ?thesis
    by (simp only: byte_sum_def word_of_nat_byte_sum)
qed


section \<open>Properties of the frame codec\<close>

text \<open>
  Claim C1, as amended. Every packet that \<open>pentairBuildPacket\<close> builds carries in its two
  trailing bytes, big-endian, the sum of all bytes from the lead byte \<open>0xA5\<close> at index
  \<open>PKT_IDX_LEAD = 3\<close> (the fourth byte of the marker) through the last data byte, reduced
  modulo \<open>2 ^ 16\<close>; the two checksum bytes are not part of the sum, and \<open>pentairChecksum\<close>
  computes the same sum, starting at index 3.
\<close>

theorem checksum_from_lead_byte:
  assumes "unat dataLen \<le> length data" and "11 + unat dataLen \<le> length buffer"
  shows "\<exists>b n. pentairBuildPacket buffer dst src cmd data dataLen = Some (b, n) \<and>
           rd b PKT_IDX_LEAD = Some 0xA5 \<and>
           checksum_field b n = byte_sum b PKT_IDX_LEAD (n - 2) mod 2 ^ 16 \<and>
           pentairChecksum b n = Some (word_of_nat (byte_sum b PKT_IDX_LEAD (n - 2)))"
proof -
  define payload where "payload = take (unat dataLen) data"
  define b where "b = frame_bytes dst src cmd payload dataLen @ drop (11 + unat dataLen) buffer"
  have lp: "length payload = unat dataLen"
    using assms by (simp add: payload_def)
  have "pentairBuildPacket buffer dst src cmd data dataLen = Some (b, 11 + length payload)"
    using assms by (simp add: build_eq b_def payload_def)
  moreover have "rd b PKT_IDX_LEAD = Some 0xA5"
    by (simp add: b_def rd_def PKT_IDX_LEAD_def frame_bytes_def frame_body_def Let_def)
  moreover have "checksum_field b (11 + length payload) =
      byte_sum b PKT_IDX_LEAD (11 + length payload - 2) mod 2 ^ 16"
    using frame_checksum_field [of dst src cmd payload dataLen]
    by (simp add: b_def PKT_IDX_LEAD_def)
  moreover have "pentairChecksum b (11 + length payload) =
      Some (word_of_nat (byte_sum b PKT_IDX_LEAD (11 + length payload - 2)))"
    using frame_checksum [of dst src cmd payload dataLen]
    by (simp add: b_def PKT_IDX_LEAD_def)
  ultimately show ?thesis
    by blast
qed

theorem checksum_from_lead_byte_witness:
  "\<exists>b n. pentairBuildPacket (replicate 11 0) 0x60 0x20 0x07 [] 0 = Some (b, n) \<and>
         rd b PKT_IDX_LEAD = Some 0xA5 \<and>
         checksum_field b n = byte_sum b PKT_IDX_LEAD (n - 2) mod 2 ^ 16 \<and>
         pentairChecksum b n = Some (word_of_nat (byte_sum b PKT_IDX_LEAD (n - 2)))"
  using checksum_from_lead_byte [where dataLen = "0" and data = "[]" and buffer = "replicate 11 0"
      and dst = "0x60" and src = "0x20" and cmd = "0x07"]
  by simp

text \<open>
  Claim C1 as stated fails: the sum does not start at the version byte. For the status
  query to pump \<open>0x60\<close> the appended checksum is \<open>0x012C\<close>, whereas the bytes from the
  version byte (index \<open>PKT_IDX_VER = 4\<close>) through the last data byte add up to \<open>0x87\<close>.
\<close>

theorem checksum_from_version_byte_counterexample:
  "pentairBuildPacket (replicate 11 0) 0x60 0x20 0x07 [] 0 = Some ([0xFF, 0x00, 0xFF, 0xA5, 0x00, 0x60, 0x20, 0x07, 0x00, 0x01, 0x2C], 11) \<and>
   checksum_field [0xFF, 0x00, 0xFF, 0xA5, 0x00, 0x60, 0x20, 0x07, 0x00, 0x01, 0x2C] 11 = 0x012C \<and>
   byte_sum [0xFF, 0x00, 0xFF, 0xA5, 0x00, 0x60, 0x20, 0x07, 0x00, 0x01, 0x2C] PKT_IDX_VER (11 - 2) = 0x87 \<and>
   checksum_field [0xFF, 0x00, 0xFF, 0xA5, 0x00, 0x60, 0x20, 0x07, 0x00, 0x01, 0x2C] 11 \<noteq>
     byte_sum [0xFF, 0x00, 0xFF, 0xA5, 0x00, 0x60, 0x20, 0x07, 0x00, 0x01, 0x2C] PKT_IDX_VER (11 - 2) \<and>
   pentairChecksum [0xFF, 0x00, 0xFF, 0xA5, 0x00, 0x60, 0x20, 0x07, 0x00, 0x01, 0x2C] 11 = Some 0x012C \<and>
   pentairChecksum [0xFF, 0x00, 0xFF, 0xA5, 0x00, 0x60, 0x20, 0x07, 0x00, 0x01, 0x2C] 11 \<noteq>
     Some (word_of_nat (byte_sum [0xFF, 0x00, 0xFF, 0xA5, 0x00, 0x60, 0x20, 0x07, 0x00, 0x01, 0x2C] PKT_IDX_VER (11 - 2)))"
  by code_simp

text \<open>
  The sum is kept in 16 bits and can exceed them: with 255 data bytes \<open>0xFF\<close> and all
  header fields \<open>0xFF\<close> the bytes from index 3 add up to 66210, and the checksum appended
  is \<open>66210 - 65536 = 674\<close>.
\<close>

lemma checksum_wraps_around:
  "pentairBuildPacket (replicate 266 0) 0xFF 0xFF 0xFF (replicate 255 0xFF) 0xFF =
     Some (frame_bytes 0xFF 0xFF 0xFF (replicate 255 0xFF) 0xFF, 266) \<and>
   byte_sum (frame_bytes 0xFF 0xFF 0xFF (replicate 255 0xFF) 0xFF) PKT_IDX_LEAD (266 - 2) = 66210 \<and>
   checksum_field (frame_bytes 0xFF 0xFF 0xFF (replicate 255 0xFF) 0xFF) 266 = 674"
proof -
  define payload :: "u8 list" where "payload = replicate 255 0xFF"
  define f where "f = frame_bytes 0xFF 0xFF 0xFF payload 0xFF"
  have lp: "length payload = 255"
    by (simp add: payload_def)
  have "pentairBuildPacket (replicate 266 0) 0xFF 0xFF 0xFF payload 0xFF =
      Some (frame_bytes 0xFF 0xFF 0xFF (take (unat (0xFF :: u8)) payload) 0xFF
              @ drop (11 + unat (0xFF :: u8)) (replicate 266 0), 11 + unat (0xFF :: u8))"
    by (rule build_eq) (simp_all add: lp)
  then have b: "pentairBuildPacket (replicate 266 0) 0xFF 0xFF 0xFF payload 0xFF = Some (f, 266)"
    by (simp add: lp f_def)
  have "take (264 - 3) (drop 3 (f @ [])) =
      [0xA5, 0x00, 0xFF, 0xFF, 0xFF, 0xFF] @ payload"
    by (simp add: f_def frame_bytes_def frame_body_def Let_def lp)
  then have "byte_sum f 3 264 = sum_list (map unat ([0xA5, 0x00, 0xFF, 0xFF, 0xFF, 0xFF] @ payload))"
    by (simp add: byte_sum_def)
  also have "\<dots> = 165 + 4 * 255 + 255 * 255"
    by (simp add: payload_def sum_list_replicate)
  finally have s: "byte_sum f 3 264 = 66210"
    by simp
  have "checksum_field (f @ []) (11 + length payload) = byte_sum (f @ []) 3 (9 + length payload) mod 65536"
    unfolding f_def by (rule frame_checksum_field)
  then have c: "checksum_field f 266 = 674"
    by (simp add: lp s)
  from b s c show ?thesis
    by (simp add: payload_def f_def PKT_IDX_LEAD_def)
qed

text \<open>
  Claim C2. For every destination, source, command and data of at most 255 bytes, the buffer
  that \<open>pentairBuildPacket\<close> fills (a buffer with room for \<open>11 + |data|\<close> bytes) passes
  \<open>pentairVerifyChecksum\<close>, \<open>pentairFindMessage\<close> finds its marker at index 0, and the
  version, destination, source, command, length and data bytes read back are the inputs.
\<close>

theorem build_round_trip:
  assumes "length data \<le> 255" and "11 + length data \<le> length buffer"
  shows "\<exists>b. pentairBuildPacket buffer dst src cmd data (word_of_nat (length data)) =
               Some (b, 11 + length data) \<and>
             pentairVerifyChecksum b (11 + length data) = Some True \<and>
             pentairFindMessage b (11 + length data) = Some 0 \<and>
             rd b PKT_IDX_VER = Some PENTAIR_VERSION \<and>
             rd b PKT_IDX_DST = Some dst \<and>
             rd b PKT_IDX_SRC = Some src \<and>
             rd b PKT_IDX_CMD = Some cmd \<and>
             rd b PKT_IDX_LEN = Some (word_of_nat (length data)) \<and>
             unat (word_of_nat (length data) :: u8) = length data \<and>
             take (length data) (drop PKT_IDX_DATA b) = data"
proof -
  define dataLen :: u8 where "dataLen = word_of_nat (length data)"
  define b where "b = frame_bytes dst src cmd data dataLen @ drop (11 + length data) buffer"
  have n: "unat dataLen = length data"
    using assms(1) by (simp add: dataLen_def unat_len_byte)
  have "pentairBuildPacket buffer dst src cmd data dataLen = Some (b, 11 + length data)"
    using assms(2) by (simp add: build_eq n b_def)
  moreover have "pentairVerifyChecksum b (11 + length data) = Some True"
    by (simp add: b_def verify_frame)
  moreover have "pentairFindMessage b (11 + length data) = Some 0"
    unfolding b_def by (rule find_at_start) (simp, rule frame_fields)
  moreover have "length b = 11 + length data + length (drop (11 + length data) buffer)"
    unfolding b_def by (rule frame_fields)
  then have "rd b PKT_IDX_VER = Some PENTAIR_VERSION" "rd b PKT_IDX_DST = Some dst"
    "rd b PKT_IDX_SRC = Some src" "rd b PKT_IDX_CMD = Some cmd" "rd b PKT_IDX_LEN = Some dataLen"
    by (simp_all add: rd_def b_def frame_fields PKT_IDX_VER_def PKT_IDX_DST_def PKT_IDX_SRC_def
        PKT_IDX_CMD_def PKT_IDX_LEN_def PENTAIR_VERSION_def)
  moreover have "take (length data) (drop PKT_IDX_DATA b) = data"
    unfolding b_def PKT_IDX_DATA_def by (rule frame_fields)
  ultimately show ?thesis
    using n unfolding dataLen_def by blast
qed

theorem build_round_trip_witness:
  "\<exists>b. pentairBuildPacket (replicate 16 0) 0x60 0x20 0x01 [0x02, 0xC4, 0x0B, 0xB8] 4 = Some (b, 15) \<and>
       pentairVerifyChecksum b 15 = Some True \<and>
       pentairFindMessage b 15 = Some 0 \<and>
       rd b PKT_IDX_VER = Some PENTAIR_VERSION \<and>
       rd b PKT_IDX_DST = Some 0x60 \<and>
       rd b PKT_IDX_SRC = Some 0x20 \<and>
       rd b PKT_IDX_CMD = Some 0x01 \<and>
       rd b PKT_IDX_LEN = Some 4 \<and>
       take (length [0x02, 0xC4, 0x0B, 0xB8 :: u8]) (drop PKT_IDX_DATA b) = [0x02, 0xC4, 0x0B, 0xB8]"
  using build_round_trip [where data = "[0x02, 0xC4, 0x0B, 0xB8]" and buffer = "replicate 16 0"
      and dst = "0x60" and src = "0x20" and cmd = "0x01"]
  by simp

text \<open>
  Claim C3. A status query (command \<open>0x07\<close>, no data) to pump address \<open>0x60\<close> from remote
  address \<open>0x20\<close> is encoded as the 11 bytes \<open>FF 00 FF A5 00 60 20 07 00 01 2C\<close>; the rest
  of the caller's buffer is left as it was.
\<close>

theorem status_query_frame:
  "11 \<le> length buffer \<Longrightarrow>
   pentairBuildPacket buffer ADDR_PUMP_1 ADDR_REMOTE_CONTROLLER CMD_STATUS data 0 =
     Some ([0xFF, 0x00, 0xFF, 0xA5, 0x00, 0x60, 0x20, 0x07, 0x00, 0x01, 0x2C] @ drop 11 buffer, 11)"
proof -
  assume "11 \<le> length buffer"
  then have "pentairBuildPacket buffer ADDR_PUMP_1 ADDR_REMOTE_CONTROLLER CMD_STATUS data 0 =
      Some (frame_bytes ADDR_PUMP_1 ADDR_REMOTE_CONTROLLER CMD_STATUS (take (unat (0 :: u8)) data) 0
              @ drop (11 + unat (0 :: u8)) buffer, 11 + unat (0 :: u8))"
    by (intro build_eq) simp_all
  moreover have "frame_bytes ADDR_PUMP_1 ADDR_REMOTE_CONTROLLER CMD_STATUS [] 0 =
      [0xFF, 0x00, 0xFF, 0xA5, 0x00, 0x60, 0x20, 0x07, 0x00, 0x01, 0x2C]"
    by (simp add: frame_bytes_def frame_body_def wsum_def ADDR_PUMP_1_def
        ADDR_REMOTE_CONTROLLER_def CMD_STATUS_def)
  ultimately show ?thesis
    by simp
qed

theorem status_query_frame_witness:
  "11 \<le> length (replicate 11 (0 :: u8)) \<and>
   pentairBuildPacket (replicate 11 0) ADDR_PUMP_1 ADDR_REMOTE_CONTROLLER CMD_STATUS [] 0 =
     Some ([0xFF, 0x00, 0xFF, 0xA5, 0x00, 0x60, 0x20, 0x07, 0x00, 0x01, 0x2C], 11)"
  using status_query_frame [of "replicate 11 0" "[]"] by simp

text \<open>
  Claim C4, as amended. In a frame built by \<open>pentairBuildPacket\<close>, replacing the byte at
  any position from the lead byte \<open>0xA5\<close> (index 3) through the last data byte by a
  different value makes \<open>pentairVerifyChecksum\<close> return false.
\<close>

theorem checksummed_byte_flip_detected:
  assumes "unat dataLen \<le> length data" and "11 + unat dataLen \<le> length buffer"
    and "pentairBuildPacket buffer dst src cmd data dataLen = Some (b, n)"
    and "PKT_IDX_LEAD \<le> i" and "i < n - 2" and "v \<noteq> b ! i"
  shows "pentairVerifyChecksum b n = Some True \<and> pentairVerifyChecksum (b[i := v]) n = Some False"
proof -
  define payload where "payload = take (unat dataLen) data"
  have lp: "length payload = unat dataLen"
    using assms(1) by (simp add: payload_def)
  have "Some (b, n) =
      Some (frame_bytes dst src cmd payload dataLen @ drop (11 + unat dataLen) buffer,
            11 + unat dataLen)"
    using assms(1,2) by (simp add: build_eq payload_def flip: assms(3))
  then have b: "b = frame_bytes dst src cmd payload dataLen @ drop (11 + unat dataLen) buffer"
    and n: "n = 11 + length payload"
    by (simp_all add: lp)
  have "pentairVerifyChecksum b n = Some True"
    unfolding b n by (rule verify_frame)
  moreover have "pentairVerifyChecksum (b[i := v]) n = Some False"
    unfolding b n
    using assms(4,5,6) by (intro verify_frame_corrupted) (simp_all add: b n PKT_IDX_LEAD_def)
  ultimately show ?thesis ..
qed

theorem checksummed_byte_flip_detected_witness:
  "pentairVerifyChecksum [0xFF, 0x00, 0xFF, 0xA5, 0x00, 0x60, 0x20, 0x07, 0x00, 0x01, 0x2C] 11 = Some True \<and>
   pentairVerifyChecksum [0xFF, 0x00, 0xFF, 0xA5, 0x00, 0x61, 0x20, 0x07, 0x00, 0x01, 0x2C] 11 = Some False"
proof -
  have b: "pentairBuildPacket (replicate 11 0) 0x60 0x20 0x07 [] 0 =
      Some ([0xFF, 0x00, 0xFF, 0xA5, 0x00, 0x60, 0x20, 0x07, 0x00, 0x01, 0x2C], 11)"
    by code_simp
  show ?thesis
    using checksummed_byte_flip_detected [OF _ _ b, of 5 "0x61"]
    by (simp add: PKT_IDX_LEAD_def)
qed

text \<open>
  Claim C4 as stated fails at the first three marker bytes, which the checksum does not
  cover: with byte 0 of the status query changed from \<open>0xFF\<close> to \<open>0x00\<close> the checksum
  still verifies.
\<close>

theorem marker_byte_flip_counterexample:
  "pentairBuildPacket (replicate 11 0) 0x60 0x20 0x07 [] 0 =
     Some ([0xFF, 0x00, 0xFF, 0xA5, 0x00, 0x60, 0x20, 0x07, 0x00, 0x01, 0x2C], 11) \<and>
   pentairVerifyChecksum [0xFF, 0x00, 0xFF, 0xA5, 0x00, 0x60, 0x20, 0x07, 0x00, 0x01, 0x2C] 11 = Some True \<and>
   (0 :: nat) < 11 - 2 \<and>
   (0x00 :: u8) \<noteq> [0xFF, 0x00, 0xFF, 0xA5, 0x00, 0x60, 0x20, 0x07, 0x00, 0x01, 0x2C] ! 0 \<and>
   pentairVerifyChecksum
     ([0xFF, 0x00, 0xFF, 0xA5, 0x00, 0x60, 0x20, 0x07, 0x00, 0x01, 0x2C][0 := 0x00]) 11 = Some True"
  by code_simp

text \<open>
  Claim C6, as amended. \<open>pentairBuildPacket\<close> has no failure result and never rejects a
  payload as too large: its length parameter is 8 bits wide, so the length of the data
  reaches it modulo 256, and for every data and every buffer with room for the frame it
  succeeds and returns 11 plus that length. For data of at most 255 bytes this is
  \<open>11 + |data|\<close>.
\<close>

theorem build_never_rejects:
  assumes "11 + length data mod 256 \<le> length buffer"
  shows "\<exists>b. pentairBuildPacket buffer dst src cmd data (word_of_nat (length data)) =
               Some (b, 11 + length data mod 256)"
proof -
  have "unat (word_of_nat (length data) :: u8) = length data mod 256"
    by (rule unat_len_byte_mod)
  moreover have "length data mod 256 \<le> length data"
    by simp
  ultimately show ?thesis
    using assms build_eq [of "word_of_nat (length data)" buffer data dst src cmd] by simp
qed

theorem build_never_rejects_witness:
  "\<exists>b. pentairBuildPacket (replicate 300 0) 0x60 0x20 0x01 (replicate 256 0xAA)
         (word_of_nat (length (replicate 256 (0xAA :: u8)))) = Some (b, 11)"
  using build_never_rejects [where data = "replicate 256 0xAA" and buffer = "replicate 300 0"
      and dst = "0x60" and src = "0x20" and cmd = "0x01"]
  by simp

text \<open>
  Claim C6 as stated fails: with 256 bytes of data the call does not fail; the length byte
  is 0 and an 11-byte frame without payload is built.
\<close>

theorem oversized_payload_counterexample:
  "255 < length (replicate 256 (0xAA :: u8)) \<and>
   pentairBuildPacket (replicate 300 0) 0x60 0x20 0x01 (replicate 256 0xAA)
       (word_of_nat (length (replicate 256 (0xAA :: u8)))) =
     Some ([0xFF, 0x00, 0xFF, 0xA5, 0x00, 0x60, 0x20, 0x01, 0x00, 0x01, 0x26] @ replicate 289 0, 11)"
  by code_simp

text \<open>
  Claim C7. An encoded frame is \<open>4 + 5 + LEN + 2\<close> bytes long, which is at least 11 and
  exactly 11 when \<open>LEN = 0\<close>: \<open>pentairBuildPacket\<close> returns \<open>11 + dataLen\<close>, and
  \<open>pentairPacketLength\<close> returns 11 plus the length byte at index 8 of any buffer that has
  a byte at index 8.
\<close>

theorem frame_length:
  "(unat dataLen \<le> length data \<and> 11 + unat dataLen \<le> length buffer \<longrightarrow>
      (\<exists>b. pentairBuildPacket buffer dst src cmd data dataLen = Some (b, 4 + 5 + unat dataLen + 2) \<and>
           rd b PKT_IDX_LEN = Some dataLen \<and>
           pentairPacketLength b = Some (4 + 5 + unat dataLen + 2)) \<and>
      PENTAIR_MIN_PKT_LEN \<le> 4 + 5 + unat dataLen + 2 \<and>
      (dataLen = 0 \<longrightarrow> 4 + 5 + unat dataLen + 2 = PENTAIR_MIN_PKT_LEN)) \<and>
   (PKT_IDX_LEN < length packetStart \<longrightarrow>
      pentairPacketLength packetStart = Some (11 + unat (packetStart ! PKT_IDX_LEN)))"
proof -
  have "\<exists>b. pentairBuildPacket buffer dst src cmd data dataLen = Some (b, 4 + 5 + unat dataLen + 2) \<and>
           rd b PKT_IDX_LEN = Some dataLen \<and>
           pentairPacketLength b = Some (4 + 5 + unat dataLen + 2)"
    if d: "unat dataLen \<le> length data" and bf: "11 + unat dataLen \<le> length buffer"
  proof -
    define b where "b = frame_bytes dst src cmd (take (unat dataLen) data) dataLen
        @ drop (11 + unat dataLen) buffer"
    have "pentairBuildPacket buffer dst src cmd data dataLen = Some (b, 4 + 5 + unat dataLen + 2)"
      using d bf by (simp add: build_eq b_def)
    moreover have "length b = 11 + length (take (unat dataLen) data)
        + length (drop (11 + unat dataLen) buffer)"
      unfolding b_def by (rule frame_fields)
    then have r: "rd b PKT_IDX_LEN = Some dataLen"
      by (simp add: rd_def b_def frame_fields PKT_IDX_LEN_def)
    then have "pentairPacketLength b = Some (4 + 5 + unat dataLen + 2)"
      by (simp add: pentairPacketLength_def)
    ultimately show ?thesis
      using r by blast
  qed
  moreover have "pentairPacketLength packetStart = Some (11 + unat (packetStart ! PKT_IDX_LEN))"
    if "PKT_IDX_LEN < length packetStart"
    using that by (simp add: pentairPacketLength_def rd_def)
  ultimately show ?thesis
    by (simp add: PENTAIR_MIN_PKT_LEN_def)
qed

theorem frame_length_witness:
  "(\<exists>b. pentairBuildPacket (replicate 16 0) 0x60 0x20 0x01 [0x02, 0xC4, 0x0B, 0xB8] 4 = Some (b, 15) \<and>
        rd b PKT_IDX_LEN = Some 4 \<and> pentairPacketLength b = Some 15) \<and>
   pentairPacketLength [0xFF, 0x00, 0xFF, 0xA5, 0x00, 0x60, 0x20, 0x07, 0x00, 0x01, 0x2C] = Some 11"
  using frame_length [where dataLen = "4" and data = "[0x02, 0xC4, 0x0B, 0xB8]"
      and buffer = "replicate 16 0" and dst = "0x60" and src = "0x20" and cmd = "0x01"
      and packetStart = "[0xFF, 0x00, 0xFF, 0xA5, 0x00, 0x60, 0x20, 0x07, 0x00, 0x01, 0x2C]"]
  by (simp add: PKT_IDX_LEN_def)

text \<open>
  Claim C9. A length below 11 is rejected whatever the buffer holds: \<open>pentairFindMessage\<close>
  returns \<open>-1\<close>, also when the complete marker is present, and \<open>pentairVerifyChecksum\<close>
  returns false.
\<close>

theorem short_buffer_rejected:
  "len < PENTAIR_MIN_PKT_LEN \<Longrightarrow>
   pentairFindMessage buffer len = Some (- 1) \<and> pentairVerifyChecksum buffer len = Some False"
  by (simp add: pentairFindMessage_def pentairVerifyChecksum_def)

theorem short_buffer_rejected_witness:
  "(10 :: nat) < PENTAIR_MIN_PKT_LEN \<and>
   marker_at [0xFF, 0x00, 0xFF, 0xA5, 0x00, 0x60, 0x20, 0x07, 0x00, 0x01] 0 = Some True \<and>
   pentairFindMessage [0xFF, 0x00, 0xFF, 0xA5, 0x00, 0x60, 0x20, 0x07, 0x00, 0x01] 10 = Some (- 1) \<and>
   pentairVerifyChecksum [0xFF, 0x00, 0xFF, 0xA5, 0x00, 0x60, 0x20, 0x07, 0x00, 0x01] 10 = Some False"
  using short_buffer_rejected [of 10 "[0xFF, 0x00, 0xFF, 0xA5, 0x00, 0x60, 0x20, 0x07, 0x00, 0x01]"]
  by (simp add: PENTAIR_MIN_PKT_LEN_def marker_at_def rd_def)


section \<open>Properties of the RS-485 transport and of the application\<close>

text \<open>
  Claim C10. While \<open>initialized_\<close> is false, as it is from the constructor until \<open>begin\<close> has
  run, the public operations fail without effect: \<open>available\<close> returns 0, \<open>read\<close> and \<open>peek\<close>
  return \<open>-1\<close>, \<open>readBytes\<close> and both \<open>write\<close> overloads return 0, and each of them (and
  \<open>flush\<close>) hands back the hardware state it was given: no call to the UART or to the DE/RE
  pin has been made, no time has passed, and the caller's buffer is as it was.
\<close>

theorem uninitialized_rs485_is_inert:
  assumes "\<not> initialized this"
  shows "RS485_available this hw = (0, hw) \<and>
         RS485_read this hw = (- 1, hw) \<and>
         RS485_peek this hw = (- 1, hw) \<and>
         RS485_readBytes this buffer len hw = Some (0, buffer, hw) \<and>
         RS485_write this data len hw = Some (0, hw) \<and>
         RS485_write_byte this byte hw = (0, hw) \<and>
         RS485_flush this hw = hw \<and>
         \<not> isInitialized this"
  using assms
  by (simp add: RS485_available_def RS485_read_def RS485_peek_def RS485_readBytes_def
      RS485_write_def RS485_write_byte_def RS485_flush_def isInitialized_def)

theorem uninitialized_rs485_is_inert_witness:
  "\<not> initialized (RS485_new RS485_DE_RE_PIN RS485_TX_PIN RS485_RX_PIN) \<and>
   RS485_available (RS485_new RS485_DE_RE_PIN RS485_TX_PIN RS485_RX_PIN)
     \<lparr>rx_fifo = [0x42], clock_us = 0, calls = []\<rparr> =
       (0, \<lparr>rx_fifo = [0x42], clock_us = 0, calls = []\<rparr>) \<and>
   RS485_read (RS485_new RS485_DE_RE_PIN RS485_TX_PIN RS485_RX_PIN)
     \<lparr>rx_fifo = [0x42], clock_us = 0, calls = []\<rparr> =
       (- 1, \<lparr>rx_fifo = [0x42], clock_us = 0, calls = []\<rparr>) \<and>
   RS485_peek (RS485_new RS485_DE_RE_PIN RS485_TX_PIN RS485_RX_PIN)
     \<lparr>rx_fifo = [0x42], clock_us = 0, calls = []\<rparr> =
       (- 1, \<lparr>rx_fifo = [0x42], clock_us = 0, calls = []\<rparr>) \<and>
   RS485_readBytes (RS485_new RS485_DE_RE_PIN RS485_TX_PIN RS485_RX_PIN) (Some [0, 0]) 2
     \<lparr>rx_fifo = [0x42], clock_us = 0, calls = []\<rparr> =
       Some (0, Some [0, 0], \<lparr>rx_fifo = [0x42], clock_us = 0, calls = []\<rparr>) \<and>
   RS485_write (RS485_new RS485_DE_RE_PIN RS485_TX_PIN RS485_RX_PIN) (Some [0x01, 0x02]) 2
     \<lparr>rx_fifo = [0x42], clock_us = 0, calls = []\<rparr> =
       Some (0, \<lparr>rx_fifo = [0x42], clock_us = 0, calls = []\<rparr>) \<and>
   RS485_write_byte (RS485_new RS485_DE_RE_PIN RS485_TX_PIN RS485_RX_PIN) 0x01
     \<lparr>rx_fifo = [0x42], clock_us = 0, calls = []\<rparr> =
       (0, \<lparr>rx_fifo = [0x42], clock_us = 0, calls = []\<rparr>)"
  using uninitialized_rs485_is_inert [where this = "RS485_new RS485_DE_RE_PIN RS485_TX_PIN RS485_RX_PIN"
      and hw = "\<lparr>rx_fifo = [0x42], clock_us = 0, calls = []\<rparr>" and buffer = "Some [0, 0]"
      and len = "2" and data = "Some [0x01, 0x02]" and byte = "0x01"]
  by (simp add: RS485_new_def)

lemma RS485_new_uninitialized: "\<not> initialized (RS485_new de_re tx rx)"
  by (simp add: RS485_new_def)

text \<open>
  All that \<open>processReceivedPacket\<close> does with a frame that is neither absent nor empty is
  the echo of \<open>sendRS485Data\<close>, the region under \<open>#ifdef ECHO_MODE\<close>; the forwarding under
  \<open>#ifdef ENABLE_WIFI\<close> has an empty body.
\<close>

lemma handler_only_echoes:
  "processReceivedPacket this data len hw =
     (if data = None \<or> len = 0 then Some (this, hw) else sendRS485Data this data len hw)"
  by (simp add: processReceivedPacket_def ECHO_MODE_defined_def ENABLE_WIFI_defined_def
      forwardToNetwork_def split: option.splits)

lemma begin_from_reset:
  "RS485_begin (RS485_new RS485_DE_RE_PIN RS485_TX_PIN RS485_RX_PIN) RS485_BAUD_RATE
       \<lparr>rx_fifo = [], clock_us = 0, calls = []\<rparr> =
     (True, \<lparr>de_re_pin = 4, tx_pin = 17, rx_pin = 16, initialized = True\<rparr>,
      \<lparr>rx_fifo = [], clock_us = 100010,
        calls = [PinMode 4, DigitalWrite 4 False, SerialBegin 9600 16 17]\<rparr>)"
  by (simp add: RS485_begin_def RS485_new_def RS485_DE_RE_PIN_def RS485_TX_PIN_def RS485_RX_PIN_def
      RS485_BAUD_RATE_def pinMode_def setReceiveMode_def digitalWrite_def delayMicroseconds_def
      serial_begin_def delay_def call_def RS485_POST_TX_DELAY_US_def)

lemma application_after_begin:
  "(Application_new \<lparr>rx_fifo = [], clock_us = 0, calls = []\<rparr>)\<lparr>rs485 := \<lparr>de_re_pin = 4, tx_pin = 17, rx_pin = 16, initialized = True\<rparr>\<rparr> =
     \<lparr>rs485 = \<lparr>de_re_pin = 4, tx_pin = 17, rx_pin = 16, initialized = True\<rparr>,
        statistics = \<lparr>packets_received = 0, packets_transmitted = 0, errors = 0, start_time = 0\<rparr>,
        rx_buffer = replicate RS485_BUFFER_SIZE 0, last_activity = 0, last_stats_print = 0\<rparr>"
  by (simp add: Application_new_def Statistics_new_def millis_def)

lemma echo_of_foreign_frame:
  "processReceivedPacket
     \<lparr>rs485 = \<lparr>de_re_pin = 4, tx_pin = 17, rx_pin = 16, initialized = True\<rparr>,
        statistics = \<lparr>packets_received = 0, packets_transmitted = 0, errors = 0, start_time = 0\<rparr>,
        rx_buffer = rxb, last_activity = 0, last_stats_print = 0\<rparr>
     (Some [0xFF, 0x00, 0xFF, 0xA5, 0x00, 0x10, 0x33, 0x07, 0x00, 0x00, 0xEF]) 11
     \<lparr>rx_fifo = [], clock_us = 100010,
        calls = [PinMode 4, DigitalWrite 4 False, SerialBegin 9600 16 17]\<rparr> =
   Some (\<lparr>rs485 = \<lparr>de_re_pin = 4, tx_pin = 17, rx_pin = 16, initialized = True\<rparr>,
        statistics = \<lparr>packets_received = 0, packets_transmitted = 1, errors = 0, start_time = 0\<rparr>,
        rx_buffer = rxb, last_activity = 0, last_stats_print = 0\<rparr>,
     \<lparr>rx_fifo = [], clock_us = 100030,
        calls = [PinMode 4, DigitalWrite 4 False, SerialBegin 9600 16 17,
                 DigitalWrite 4 True, SerialWrite [0xFF, 0x00, 0xFF, 0xA5, 0x00, 0x10, 0x33, 0x07, 0x00, 0x00, 0xEF],
                 SerialFlush, DigitalWrite 4 False,
                 ConsoleHex ''TX'' [0xFF, 0x00, 0xFF, 0xA5, 0x00, 0x10, 0x33, 0x07, 0x00, 0x00, 0xEF]]\<rparr>)"
  by (simp add: processReceivedPacket_def sendRS485Data_def RS485_write_def serial_write_def
      printHexData_def ECHO_MODE_defined_def ENABLE_WIFI_defined_def DEBUG_MODE_defined_def
      forwardToNetwork_def RS485_BUFFER_SIZE_def setTransmitMode_def setReceiveMode_def
      digitalWrite_def delayMicroseconds_def serial_flush_def call_def incrementTransmitted_def
      RS485_PRE_TX_DELAY_US_def RS485_POST_TX_DELAY_US_def)

lemma echo_changes_state:
  "Some (\<lparr>rs485 = \<lparr>de_re_pin = 4, tx_pin = 17, rx_pin = 16, initialized = True\<rparr>,
        statistics = \<lparr>packets_received = 0, packets_transmitted = 1, errors = 0, start_time = 0\<rparr>,
        rx_buffer = rxb, last_activity = 0, last_stats_print = 0\<rparr>,
     \<lparr>rx_fifo = [], clock_us = 100030,
        calls = [PinMode 4, DigitalWrite 4 False, SerialBegin 9600 16 17,
                 DigitalWrite 4 True, SerialWrite [0xFF, 0x00, 0xFF, 0xA5, 0x00, 0x10, 0x33, 0x07, 0x00, 0x00, 0xEF],
                 SerialFlush, DigitalWrite 4 False,
                 ConsoleHex ''TX'' [0xFF, 0x00, 0xFF, 0xA5, 0x00, 0x10, 0x33, 0x07, 0x00, 0x00, 0xEF]]\<rparr>) \<noteq>
   Some (\<lparr>rs485 = \<lparr>de_re_pin = 4, tx_pin = 17, rx_pin = 16, initialized = True\<rparr>,
        statistics = \<lparr>packets_received = 0, packets_transmitted = 0, errors = 0, start_time = 0\<rparr>,
        rx_buffer = rxb, last_activity = 0, last_stats_print = 0\<rparr>,
     \<lparr>rx_fifo = [], clock_us = 100010,
        calls = [PinMode 4, DigitalWrite 4 False, SerialBegin 9600 16 17]\<rparr>)"
  by simp

lemma foreign_frame_addresses:
  "pentairVerifyChecksum [0xFF, 0x00, 0xFF, 0xA5, 0x00, 0x10, 0x33, 0x07, 0x00, 0x00, 0xEF] 11 = Some True"
  "rd [0xFF, 0x00, 0xFF, 0xA5, 0x00, 0x10, 0x33, 0x07, 0x00, 0x00, 0xEF] PKT_IDX_DST = Some 0x10"
  "(0x10 :: u8) \<noteq> ADDR_BROADCAST"
  "\<not> (0x20 \<le> (0x10 :: u8) \<and> (0x10 :: u8) \<le> 0x2F)"
  "rd [0xFF, 0x00, 0xFF, 0xA5, 0x00, 0x10, 0x33, 0x07, 0x00, 0x00, 0xEF] PKT_IDX_SRC = Some 0x33"
  "\<not> (0x60 \<le> (0x33 :: u8) \<and> (0x33 :: u8) \<le> 0x6F)"
  by (code_simp, simp_all add: rd_def PKT_IDX_DST_def PKT_IDX_SRC_def ADDR_BROADCAST_def)

text \<open>
  Claim C5: the engine acts only on frames addressed to its own remote-controller address or
  to the broadcast address, takes status only from a pump address, and ignores every other
  received frame without any change of state. The code breaks this. \<open>config.h\<close> sets
  \<open>ECHO_MODE\<close> to 0, with the comment that the echo is for testing, but the handler tests the
  flag with \<open>#ifdef\<close>, so the echo is compiled in and every non-empty frame is sent back.
  Here the application is constructed and its transceiver started; the well-formed frame
  \<open>FF 00 FF A5 00 10 33 07 00 00 EF\<close>, from address \<open>0x33\<close> (no pump) to address \<open>0x10\<close>
  (neither a remote controller nor the broadcast address), is handed to
  \<open>processReceivedPacket\<close>. It is not ignored: the transmit-enable pin is raised, the eleven
  bytes are written to the bus, and \<open>packets_transmitted\<close> goes from 0 to 1.
\<close>

theorem foreign_frame_is_echoed:
  "RS485_begin (RS485_new RS485_DE_RE_PIN RS485_TX_PIN RS485_RX_PIN) RS485_BAUD_RATE
       \<lparr>rx_fifo = [], clock_us = 0, calls = []\<rparr> =
     (True, \<lparr>de_re_pin = 4, tx_pin = 17, rx_pin = 16, initialized = True\<rparr>,
      \<lparr>rx_fifo = [], clock_us = 100010,
        calls = [PinMode 4, DigitalWrite 4 False, SerialBegin 9600 16 17]\<rparr>) \<and>
   (Application_new \<lparr>rx_fifo = [], clock_us = 0, calls = []\<rparr>)\<lparr>rs485 := \<lparr>de_re_pin = 4, tx_pin = 17, rx_pin = 16, initialized = True\<rparr>\<rparr> =
     \<lparr>rs485 = \<lparr>de_re_pin = 4, tx_pin = 17, rx_pin = 16, initialized = True\<rparr>,
        statistics = \<lparr>packets_received = 0, packets_transmitted = 0, errors = 0, start_time = 0\<rparr>,
        rx_buffer = replicate RS485_BUFFER_SIZE 0, last_activity = 0, last_stats_print = 0\<rparr> \<and>
   pentairVerifyChecksum [0xFF, 0x00, 0xFF, 0xA5, 0x00, 0x10, 0x33, 0x07, 0x00, 0x00, 0xEF] 11 = Some True \<and>
   rd [0xFF, 0x00, 0xFF, 0xA5, 0x00, 0x10, 0x33, 0x07, 0x00, 0x00, 0xEF] PKT_IDX_DST = Some 0x10 \<and>
   (0x10 :: u8) \<noteq> ADDR_BROADCAST \<and>
   \<not> (0x20 \<le> (0x10 :: u8) \<and> (0x10 :: u8) \<le> 0x2F) \<and>
   rd [0xFF, 0x00, 0xFF, 0xA5, 0x00, 0x10, 0x33, 0x07, 0x00, 0x00, 0xEF] PKT_IDX_SRC = Some 0x33 \<and>
   \<not> (0x60 \<le> (0x33 :: u8) \<and> (0x33 :: u8) \<le> 0x6F) \<and>
   processReceivedPacket
     \<lparr>rs485 = \<lparr>de_re_pin = 4, tx_pin = 17, rx_pin = 16, initialized = True\<rparr>,
        statistics = \<lparr>packets_received = 0, packets_transmitted = 0, errors = 0, start_time = 0\<rparr>,
        rx_buffer = replicate RS485_BUFFER_SIZE 0, last_activity = 0, last_stats_print = 0\<rparr>
     (Some [0xFF, 0x00, 0xFF, 0xA5, 0x00, 0x10, 0x33, 0x07, 0x00, 0x00, 0xEF]) 11
     \<lparr>rx_fifo = [], clock_us = 100010,
        calls = [PinMode 4, DigitalWrite 4 False, SerialBegin 9600 16 17]\<rparr> =
   Some (\<lparr>rs485 = \<lparr>de_re_pin = 4, tx_pin = 17, rx_pin = 16, initialized = True\<rparr>,
        statistics = \<lparr>packets_received = 0, packets_transmitted = 1, errors = 0, start_time = 0\<rparr>,
        rx_buffer = replicate RS485_BUFFER_SIZE 0, last_activity = 0, last_stats_print = 0\<rparr>,
     \<lparr>rx_fifo = [], clock_us = 100030,
        calls = [PinMode 4, DigitalWrite 4 False, SerialBegin 9600 16 17,
                 DigitalWrite 4 True, SerialWrite [0xFF, 0x00, 0xFF, 0xA5, 0x00, 0x10, 0x33, 0x07, 0x00, 0x00, 0xEF],
                 SerialFlush, DigitalWrite 4 False,
                 ConsoleHex ''TX'' [0xFF, 0x00, 0xFF, 0xA5, 0x00, 0x10, 0x33, 0x07, 0x00, 0x00, 0xEF]]\<rparr>) \<and>
   Some (\<lparr>rs485 = \<lparr>de_re_pin = 4, tx_pin = 17, rx_pin = 16, initialized = True\<rparr>,
        statistics = \<lparr>packets_received = 0, packets_transmitted = 1, errors = 0, start_time = 0\<rparr>,
        rx_buffer = replicate RS485_BUFFER_SIZE 0, last_activity = 0, last_stats_print = 0\<rparr>,
     \<lparr>rx_fifo = [], clock_us = 100030,
        calls = [PinMode 4, DigitalWrite 4 False, SerialBegin 9600 16 17,
                 DigitalWrite 4 True, SerialWrite [0xFF, 0x00, 0xFF, 0xA5, 0x00, 0x10, 0x33, 0x07, 0x00, 0x00, 0xEF],
                 SerialFlush, DigitalWrite 4 False,
                 ConsoleHex ''TX'' [0xFF, 0x00, 0xFF, 0xA5, 0x00, 0x10, 0x33, 0x07, 0x00, 0x00, 0xEF]]\<rparr>) \<noteq>
   Some (\<lparr>rs485 = \<lparr>de_re_pin = 4, tx_pin = 17, rx_pin = 16, initialized = True\<rparr>,
        statistics = \<lparr>packets_received = 0, packets_transmitted = 0, errors = 0, start_time = 0\<rparr>,
        rx_buffer = replicate RS485_BUFFER_SIZE 0, last_activity = 0, last_stats_print = 0\<rparr>,
     \<lparr>rx_fifo = [], clock_us = 100010,
        calls = [PinMode 4, DigitalWrite 4 False, SerialBegin 9600 16 17]\<rparr>)"
  by (intro conjI, rule begin_from_reset, rule application_after_begin,
      rule foreign_frame_addresses, rule foreign_frame_addresses, rule foreign_frame_addresses,
      rule foreign_frame_addresses, rule foreign_frame_addresses, rule foreign_frame_addresses,
      rule echo_of_foreign_frame, rule echo_changes_state)


section \<open>The external-program repeat\<close>

text \<open>
  Only \<open>checkRepeat\<close> touches the repeat timer or re-issues a command; the other steps of
  \<open>tick\<close> leave both alone.
\<close>

lemma reissues_append: "reissues (xs @ ys) = reissues xs @ reissues ys"
  by (induction xs rule: reissues.induct) simp_all

lemma issue_keeps:
  "externalProgram (fst (issue now c r s)) = externalProgram s"
  "reissues (snd (issue now c r s)) = []"
  by (simp_all add: issue_def)

lemma checkTimeout_keeps:
  "externalProgram (fst (checkTimeout now s)) = externalProgram s"
  "reissues (snd (checkTimeout now s)) = []"
  by (simp_all add: checkTimeout_def issue_keeps split: option.splits)

lemma checkPoll_keeps:
  "externalProgram (fst (checkPoll now s)) = externalProgram s"
  "reissues (snd (checkPoll now s)) = []"
  by (simp_all add: checkPoll_def)

lemma dispatch_keeps:
  "externalProgram (fst (dispatch now s)) = externalProgram s"
  "reissues (snd (dispatch now s)) = []"
  by (simp_all add: dispatch_def issue_keeps split: list.splits)

lemma checkRepeat_before:
  "externalProgram s = Some (c, due) \<Longrightarrow> now < due \<Longrightarrow> checkRepeat now s = (s, [])"
  by (simp add: checkRepeat_def)

lemma checkRepeat_due:
  "externalProgram s = Some (c, due) \<Longrightarrow> due \<le> now \<Longrightarrow>
   checkRepeat now s =
     (s\<lparr>workQueue := c # workQueue s, externalProgram := Some (c, due + EXT_PROG_REPEAT_INTERVAL)\<rparr>,
      [Reissued c])"
  by (simp add: checkRepeat_def)

lemma tick_keeps:
  "externalProgram (fst (tick now s)) = externalProgram (fst (checkRepeat now (fst (checkTimeout now s))))"
  "reissues (snd (tick now s)) = reissues (snd (checkRepeat now (fst (checkTimeout now s))))"
  by (simp_all add: tick_def split_beta Let_def reissues_append checkTimeout_keeps checkPoll_keeps
      dispatch_keeps)

lemma tick_before:
  assumes "externalProgram s = Some (c, due)" and "now < due"
  shows "externalProgram (fst (tick now s)) = Some (c, due)" and "reissues (snd (tick now s)) = []"
proof -
  have "externalProgram (fst (checkTimeout now s)) = Some (c, due)"
    using assms(1) by (simp add: checkTimeout_keeps)
  then have "checkRepeat now (fst (checkTimeout now s)) = (fst (checkTimeout now s), [])"
    using assms(2) by (rule checkRepeat_before)
  then show "externalProgram (fst (tick now s)) = Some (c, due)"
    and "reissues (snd (tick now s)) = []"
    using assms(1) by (simp_all add: tick_keeps checkTimeout_keeps)
qed

lemma tick_due:
  assumes "externalProgram s = Some (c, due)" and "due \<le> now"
  shows "externalProgram (fst (tick now s)) = Some (c, due + EXT_PROG_REPEAT_INTERVAL)"
    and "reissues (snd (tick now s)) = [c]"
proof -
  have "externalProgram (fst (checkTimeout now s)) = Some (c, due)"
    using assms(1) by (simp add: checkTimeout_keeps)
  then show "externalProgram (fst (tick now s)) = Some (c, due + EXT_PROG_REPEAT_INTERVAL)"
    and "reissues (snd (tick now s)) = [c]"
    using assms(2) by (simp_all add: tick_keeps checkRepeat_due)
qed

lemma run_ticks_before:
  "externalProgram s = Some (c, due) \<Longrightarrow> \<forall>t\<in>set ts. t < due \<Longrightarrow>
   externalProgram (fst (run_ticks s ts)) = Some (c, due) \<and> reissues (snd (run_ticks s ts)) = []"
proof (induction ts arbitrary: s)
  case Nil
  then show ?case by simp
next
  case (Cons t ts)
  from Cons.prems have "t < due" by simp
  with Cons.prems(1) have a: "externalProgram (fst (tick t s)) = Some (c, due)"
    and b: "reissues (snd (tick t s)) = []"
    by (rule tick_before)+
  from Cons.prems have "\<forall>u\<in>set ts. u < due" by simp
  with a have "externalProgram (fst (run_ticks (fst (tick t s)) ts)) = Some (c, due) \<and>
      reissues (snd (run_ticks (fst (tick t s)) ts)) = []"
    by (rule Cons.IH)
  with b show ?case
    by (simp add: split_beta Let_def reissues_append)
qed

lemma run_ticks_append:
  "run_ticks s (xs @ ys) =
     (fst (run_ticks (fst (run_ticks s xs)) ys),
      snd (run_ticks s xs) @ snd (run_ticks (fst (run_ticks s xs)) ys))"
  by (induction xs arbitrary: s) (simp_all add: split_beta Let_def)

lemma armed_by_success:
  assumes "session s = AWAITING_RESPONSE" and "pending s = Some p"
    and "selectsExternalProgram (command p)"
    and "frDestination f = ownAddress s" and "matches f p"
  shows "externalProgram (onFrameReceived entered f s) = Some (command p, entered + EXT_PROG_REPEAT_INTERVAL)"
    and "session (onFrameReceived entered f s) = IDLE"
    and "workQueue (onFrameReceived entered f s) = workQueue s"
  using assms by (simp_all add: onFrameReceived_def Let_def)

text \<open>
  Claim C8, on the scheduler modelled from the specification. A command selecting an
  external-program mode has been answered at time \<open>entered\<close>. With no frame arriving and no
  command submitted, whatever ticks happen before \<open>entered + 30000\<close> re-issue nothing; the tick
  at \<open>entered + 30000\<close> re-issues that same command, and together with any ticks before the
  following repeat is due it is re-issued exactly once. When nothing else was queued, that
  tick also writes the command to the bus. The interval is \<open>EXT_PROG_REPEAT_INTERVAL\<close>, the
  source's 30000 ms.
\<close>

theorem external_program_reissued_once:
  assumes "session s = AWAITING_RESPONSE" and "pending s = Some p"
    and "selectsExternalProgram (command p)"
    and "frDestination f = ownAddress s" and "matches f p"
    and "\<forall>t\<in>set before. t < entered + EXT_PROG_REPEAT_INTERVAL"
    and "\<forall>t\<in>set after. t < entered + 2 * EXT_PROG_REPEAT_INTERVAL"
  shows "reissues (snd (run_ticks (onFrameReceived entered f s) before)) = [] \<and>
         reissues (snd (run_ticks (onFrameReceived entered f s)
                         (before @ [entered + EXT_PROG_REPEAT_INTERVAL] @ after))) = [command p] \<and>
         (workQueue s = [] \<longrightarrow>
            snd (tick (entered + EXT_PROG_REPEAT_INTERVAL) (onFrameReceived entered f s)) =
              [Reissued (command p), Written (command p)]) \<and>
         EXT_PROG_REPEAT_INTERVAL = 30000"
proof -
  define s0 where "s0 = onFrameReceived entered f s"
  define due where "due = entered + EXT_PROG_REPEAT_INTERVAL"
  define s1 where "s1 = fst (run_ticks s0 before)"
  define s2 where "s2 = fst (tick due s1)"
  have armed: "externalProgram s0 = Some (command p, due)"
    and idle: "session s0 = IDLE" and queue: "workQueue s0 = workQueue s"
    unfolding s0_def due_def using assms(1-5) by (rule armed_by_success)+
  from assms(6) have "\<forall>t\<in>set before. t < due"
    by (simp add: due_def)
  with armed have b: "externalProgram s1 = Some (command p, due) \<and>
      reissues (snd (run_ticks s0 before)) = []"
    unfolding s1_def by (rule run_ticks_before)
  then have a1: "externalProgram s1 = Some (command p, due)"
    and r1: "reissues (snd (run_ticks s0 before)) = []"
    by simp_all
  have a2: "externalProgram s2 = Some (command p, due + EXT_PROG_REPEAT_INTERVAL)"
    and r2: "reissues (snd (tick due s1)) = [command p]"
    unfolding s2_def using a1 by (rule tick_due [OF _ order_refl])+
  from assms(7) have "\<forall>t\<in>set after. t < due + EXT_PROG_REPEAT_INTERVAL"
    by (simp add: due_def mult_2 add.assoc)
  with a2 have "externalProgram (fst (run_ticks s2 after)) =
        Some (command p, due + EXT_PROG_REPEAT_INTERVAL) \<and>
      reissues (snd (run_ticks s2 after)) = []"
    by (rule run_ticks_before)
  then have r3: "reissues (snd (run_ticks s2 after)) = []"
    by simp
  have "run_ticks s1 ([due] @ after) = (fst (run_ticks s2 after), snd (tick due s1) @ snd (run_ticks s2 after))"
    by (simp add: split_beta Let_def s2_def)
  then have "reissues (snd (run_ticks s0 (before @ [due] @ after))) = [command p]"
    by (simp add: run_ticks_append [of s0 before] reissues_append r1 r2 r3 s1_def [symmetric])
  moreover have "snd (tick due s0) = [Reissued (command p), Written (command p)]"
    if "workQueue s = []"
  proof -
    have "pending s0 = None"
      using assms(1-5) by (simp add: s0_def onFrameReceived_def Let_def)
    then have "checkTimeout due s0 = (s0, [])"
      by (simp add: checkTimeout_def)
    moreover have "checkRepeat due s0 =
        (s0\<lparr>workQueue := command p # workQueue s0,
            externalProgram := Some (command p, due + EXT_PROG_REPEAT_INTERVAL)\<rparr>,
         [Reissued (command p)])"
      using armed by (simp add: checkRepeat_due)
    ultimately show ?thesis
      using idle queue that
      by (simp add: tick_def checkPoll_def dispatch_def issue_def)
  qed
  ultimately show ?thesis
    using r1 by (simp add: s0_def due_def EXT_PROG_REPEAT_INTERVAL_def)
qed

theorem external_program_reissued_once_witness:
  "reissues (snd (run_ticks (onFrameReceived 1200
       \<lparr>frVersion = PENTAIR_VERSION, frDestination = ADDR_REMOTE_CONTROLLER, frSource = ADDR_PUMP_1,
        frCommandId = CMD_MODE, frData = [MODE_EXT_PROG_1]\<rparr>
       \<lparr>session = AWAITING_RESPONSE,
        pending = Some \<lparr>command = \<lparr>cmdKind = SetMode, cmdTarget = ADDR_PUMP_1, cmdPayload = [MODE_EXT_PROG_1]\<rparr>, issuedAt = 1000, deadline = 3000, retriesRemaining = 1,
           repeatInterval = Some EXT_PROG_REPEAT_INTERVAL\<rparr>,
        workQueue = [], externalProgram = None, busIdleSince = 1000, decodedStatus = None,
        ownAddress = ADDR_REMOTE_CONTROLLER, pumpAddress = ADDR_PUMP_1, retryLimit = 1\<rparr>) [16200])) = [] \<and>
   reissues (snd (run_ticks (onFrameReceived 1200
       \<lparr>frVersion = PENTAIR_VERSION, frDestination = ADDR_REMOTE_CONTROLLER, frSource = ADDR_PUMP_1,
        frCommandId = CMD_MODE, frData = [MODE_EXT_PROG_1]\<rparr>
       \<lparr>session = AWAITING_RESPONSE,
        pending = Some \<lparr>command = \<lparr>cmdKind = SetMode, cmdTarget = ADDR_PUMP_1, cmdPayload = [MODE_EXT_PROG_1]\<rparr>, issuedAt = 1000, deadline = 3000, retriesRemaining = 1,
           repeatInterval = Some EXT_PROG_REPEAT_INTERVAL\<rparr>,
        workQueue = [], externalProgram = None, busIdleSince = 1000, decodedStatus = None,
        ownAddress = ADDR_REMOTE_CONTROLLER, pumpAddress = ADDR_PUMP_1, retryLimit = 1\<rparr>) ([16200] @ [1200 + EXT_PROG_REPEAT_INTERVAL] @ [31205]))) =
     [\<lparr>cmdKind = SetMode, cmdTarget = ADDR_PUMP_1, cmdPayload = [MODE_EXT_PROG_1]\<rparr>] \<and>
   snd (tick (1200 + EXT_PROG_REPEAT_INTERVAL) (onFrameReceived 1200
       \<lparr>frVersion = PENTAIR_VERSION, frDestination = ADDR_REMOTE_CONTROLLER, frSource = ADDR_PUMP_1,
        frCommandId = CMD_MODE, frData = [MODE_EXT_PROG_1]\<rparr>
       \<lparr>session = AWAITING_RESPONSE,
        pending = Some \<lparr>command = \<lparr>cmdKind = SetMode, cmdTarget = ADDR_PUMP_1, cmdPayload = [MODE_EXT_PROG_1]\<rparr>, issuedAt = 1000, deadline = 3000, retriesRemaining = 1,
           repeatInterval = Some EXT_PROG_REPEAT_INTERVAL\<rparr>,
        workQueue = [], externalProgram = None, busIdleSince = 1000, decodedStatus = None,
        ownAddress = ADDR_REMOTE_CONTROLLER, pumpAddress = ADDR_PUMP_1, retryLimit = 1\<rparr>)) =
     [Reissued \<lparr>cmdKind = SetMode, cmdTarget = ADDR_PUMP_1, cmdPayload = [MODE_EXT_PROG_1]\<rparr>,
      Written \<lparr>cmdKind = SetMode, cmdTarget = ADDR_PUMP_1, cmdPayload = [MODE_EXT_PROG_1]\<rparr>]"
  using external_program_reissued_once [where entered = "1200" and before = "[16200]" and after = "[31205]"
      and p = "\<lparr>command = \<lparr>cmdKind = SetMode, cmdTarget = ADDR_PUMP_1, cmdPayload = [MODE_EXT_PROG_1]\<rparr>, issuedAt = 1000, deadline = 3000, retriesRemaining = 1,
           repeatInterval = Some EXT_PROG_REPEAT_INTERVAL\<rparr>"
      and f = "\<lparr>frVersion = PENTAIR_VERSION, frDestination = ADDR_REMOTE_CONTROLLER, frSource = ADDR_PUMP_1,
        frCommandId = CMD_MODE, frData = [MODE_EXT_PROG_1]\<rparr>"
      and s = "\<lparr>session = AWAITING_RESPONSE,
        pending = Some \<lparr>command = \<lparr>cmdKind = SetMode, cmdTarget = ADDR_PUMP_1, cmdPayload = [MODE_EXT_PROG_1]\<rparr>, issuedAt = 1000, deadline = 3000, retriesRemaining = 1,
           repeatInterval = Some EXT_PROG_REPEAT_INTERVAL\<rparr>,
        workQueue = [], externalProgram = None, busIdleSince = 1000, decodedStatus = None,
        ownAddress = ADDR_REMOTE_CONTROLLER, pumpAddress = ADDR_PUMP_1, retryLimit = 1\<rparr>"]
  by (simp add: selectsExternalProgram_def matches_def commandIdOf_def MODE_EXT_PROG_1_def
      MODE_EXT_PROG_4_def EXT_PROG_REPEAT_INTERVAL_def)


end
